theory Spec2Isabelle
  imports Main
begin

section \<open>Version Equalizer: the synchronisation engine of \<open>FileProcessor\<close>\<close>

text \<open>
  The development embeds the four worker operations of \<open>version_equalizer.pyw\<close>
  (\<open>scan_folder\<close>, \<open>compare_versions\<close>, \<open>create_zip\<close>, \<open>equalize_versions\<close>).
  A JSON object with string values (a snapshot record, a plan entry) is a Python
  \<open>dict\<close>, modelled as a partial map from keys to strings; a subscript on a missing key
  raises \<open>KeyError\<close>. Exceptions are values of the type \<open>error\<close>; every exception
  that leaves an operation is what \<open>FileProcessor.run\<close> turns into \<open>error_signal\<close>.
\<close>

subsection \<open>JSON objects and exceptions\<close>

type_synonym json_obj = "string \<rightharpoonup> string"

datatype error =
    KeyError string
  | InvalidFolderPath
  | AttributeError
  | BadZipFile
  | FileNotFoundError string
  | FileExistsError string
  | NotADirectoryError string
  | IsADirectoryError string
  | ShutilError string
  | IndexError

text \<open>The subscript \<open>item[key]\<close>.\<close>

definition getitem :: "json_obj \<Rightarrow> string \<Rightarrow> error + string" where
  "getitem item k = (case item k of None \<Rightarrow> Inl (KeyError k) | Some v \<Rightarrow> Inr v)"

text \<open>The dict literal \<open>{"fileName": ..., "hash": ...}\<close> that \<open>scan_folder\<close> appends.\<close>

definition file_record :: "string \<Rightarrow> string \<Rightarrow> json_obj" where
  "file_record relative_path digest = [''fileName'' \<mapsto> relative_path, ''hash'' \<mapsto> digest]"

text \<open>The dict literal \<open>{"filename": ..., "status": ...}\<close> that \<open>compare_versions\<close> appends.\<close>

definition plan_entry :: "string \<Rightarrow> string \<Rightarrow> json_obj" where
  "plan_entry filename status = [''filename'' \<mapsto> filename, ''status'' \<mapsto> status]"

subsection \<open>\<open>compare_versions\<close>\<close>

text \<open>
  A Python \<open>dict\<close> keeps its keys in insertion order; assigning to a key that is already
  present replaces the value and leaves the key where it was first inserted.
\<close>

type_synonym pydict = "(string \<times> string) list"

fun dict_set :: "pydict \<Rightarrow> string \<Rightarrow> string \<Rightarrow> pydict" where
  "dict_set [] k v = [(k, v)]"
| "dict_set ((k', v') # d) k v =
     (if k' = k then (k', v) # d else (k', v') # dict_set d k v)"

text \<open>\<open>key in d\<close> and \<open>d[key]\<close> for a key known to be present are \<open>map_of\<close>.\<close>

definition dict_contains :: "pydict \<Rightarrow> string \<Rightarrow> bool" where
  "dict_contains d k = (map_of d k \<noteq> None)"

text \<open>
  The comprehension \<open>{item["fileName"]: item["hash"] for item in files}\<close>, run over the
  remaining items with the dict built so far.
\<close>

fun files_dict :: "json_obj list \<Rightarrow> pydict \<Rightarrow> error + pydict" where
  "files_dict [] d = Inr d"
| "files_dict (item # items) d =
     (case getitem item ''fileName'' of
        Inl e \<Rightarrow> Inl e
      | Inr k \<Rightarrow>
          (case getitem item ''hash'' of
             Inl e \<Rightarrow> Inl e
           | Inr v \<Rightarrow> files_dict items (dict_set d k v)))"

text \<open>
  \<open>compare_versions\<close>, given the \<open>files\<close> lists of \<open>json_data["to_version"]\<close> and
  \<open>json_data["from_version"]\<close>; the result is the list \<open>convert_data\<close>.
\<close>

definition compare_versions :: "json_obj list \<Rightarrow> json_obj list \<Rightarrow> error + json_obj list" where
  "compare_versions to_version_files from_version_files =
     (case files_dict to_version_files [] of
        Inl e \<Rightarrow> Inl e
      | Inr to_files \<Rightarrow>
          (case files_dict from_version_files [] of
             Inl e \<Rightarrow> Inl e
           | Inr from_files \<Rightarrow>
               Inr (map (\<lambda>(filename, hash_value). plan_entry filename ''copy'')
                      (filter (\<lambda>(filename, hash_value).
                          \<not> dict_contains from_files filename
                          \<or> map_of from_files filename \<noteq> Some hash_value) to_files)
                    @ map (\<lambda>(filename, hash_value). plan_entry filename ''move'')
                      (filter (\<lambda>(filename, hash_value).
                          \<not> dict_contains to_files filename) from_files))))"

text \<open>A snapshot in the sense of the data model: records \<open>(path, digest)\<close> in order.\<close>

definition snapshot :: "(string \<times> string) list \<Rightarrow> json_obj list" where
  "snapshot recs = map (\<lambda>(p, h). file_record p h) recs"

subsection \<open>Paths\<close>

text \<open>
  Paths are strings. The functions of \<open>os.path\<close> are those of \<open>posixpath\<close>, where
  \<open>os.sep\<close> is \<open>/\<close>, so that \<open>name.replace('/', os.sep)\<close> leaves a name as it is.
\<close>

definition os_sep :: char where
  "os_sep = CHR ''/''"

definition str_replace :: "char \<Rightarrow> char \<Rightarrow> string \<Rightarrow> string" where
  "str_replace old new s = map (\<lambda>c. if c = old then new else c) s"

definition rstrip_sep :: "string \<Rightarrow> string" where
  "rstrip_sep s = rev (dropWhile (\<lambda>c. c = os_sep) (rev s))"

text \<open>
  \<open>os.path.split\<close>: the head is everything up to and including the last separator,
  with trailing separators stripped unless it consists of separators only; the tail is
  what follows the last separator. \<open>dirname\<close> and \<open>basename\<close> are its components.
\<close>

definition path_split :: "string \<Rightarrow> string \<times> string" where
  "path_split p =
     (let head = rev (dropWhile (\<lambda>c. c \<noteq> os_sep) (rev p));
          tail = rev (takeWhile (\<lambda>c. c \<noteq> os_sep) (rev p))
      in (if head \<noteq> [] \<and> head \<noteq> replicate (length head) os_sep
          then rstrip_sep head else head, tail))"

definition dirname :: "string \<Rightarrow> string" where
  "dirname p = fst (path_split p)"

definition basename :: "string \<Rightarrow> string" where
  "basename p = snd (path_split p)"

text \<open>\<open>os.path.join\<close> of two components: an absolute second component replaces the first.\<close>

definition join :: "string \<Rightarrow> string \<Rightarrow> string" where
  "join a b =
     (if b \<noteq> [] \<and> hd b = os_sep then b
      else if a = [] \<or> last a = os_sep then a @ b
      else a @ [os_sep] @ b)"

text \<open>\<open>s.split('/')\<close> and \<open>'/'.join(comps)\<close>.\<close>

fun split_sep :: "string \<Rightarrow> string list" where
  "split_sep [] = [[]]"
| "split_sep (c # s) =
     (if c = os_sep then [] # split_sep s
      else (case split_sep s of [] \<Rightarrow> [[c]] | x # xs \<Rightarrow> (c # x) # xs))"

fun sep_join :: "string list \<Rightarrow> string" where
  "sep_join [] = []"
| "sep_join [x] = x"
| "sep_join (x # y # ys) = x @ os_sep # sep_join (y # ys)"

text \<open>
  \<open>os.path.normpath\<close>. The loop over the components drops empty components and
  \<open>.\<close>, and lets \<open>..\<close> remove the component before it, unless there is none to
  remove in a relative path or the one before is itself \<open>..\<close>; above the root \<open>..\<close>
  is dropped. Exactly two leading separators are kept, any other number becomes one.
\<close>

fun norm_comps :: "bool \<Rightarrow> string list \<Rightarrow> string list \<Rightarrow> string list" where
  "norm_comps initial_slashes [] new_comps = new_comps"
| "norm_comps initial_slashes (part # comps) new_comps =
     (if part = [] \<or> part = ''.'' then norm_comps initial_slashes comps new_comps
      else if part \<noteq> ''..'' \<or> (\<not> initial_slashes \<and> new_comps = [])
              \<or> (new_comps \<noteq> [] \<and> last new_comps = ''..'')
        then norm_comps initial_slashes comps (new_comps @ [part])
      else if new_comps \<noteq> [] then norm_comps initial_slashes comps (butlast new_comps)
      else norm_comps initial_slashes comps new_comps)"

definition normpath :: "string \<Rightarrow> string" where
  "normpath path =
     (if path = [] then ''.''
      else
        (let initial_slashes =
               (if take 1 path = [os_sep]
                then (if take 2 path = [os_sep, os_sep] \<and> take 3 path \<noteq> [os_sep, os_sep, os_sep]
                      then 2 else 1)
                else (0::nat));
             p = replicate initial_slashes os_sep
                   @ sep_join (norm_comps (initial_slashes \<noteq> 0) (split_sep path) [])
         in if p = [] then ''.'' else p))"

text \<open>
  \<open>os.path.relpath\<close> for a path that lies below \<open>start\<close>, which is the only way
  \<open>scan_folder\<close> calls it (on the paths \<open>os.walk\<close> of \<open>start\<close> yields).
\<close>

definition relpath :: "string \<Rightarrow> string \<Rightarrow> string" where
  "relpath p start =
     (if take (length start) p = start
      then dropWhile (\<lambda>c. c = os_sep) (drop (length start) p) else p)"

text \<open>The path \<open>p\<close> lies strictly below the directory \<open>d\<close>.\<close>

definition under :: "string \<Rightarrow> string \<Rightarrow> bool" where
  "under d p =
     (let pre = (if d = [] \<or> last d = os_sep then d else d @ [os_sep])
      in length pre < length p \<and> take (length pre) p = pre)"

subsection \<open>The file system\<close>

text \<open>
  A file system state maps a path to what is there: a regular file with its bytes, a
  directory, or a regular file that is a ZIP archive, given by its members in the order
  they were written (a member is a name with a file, or with \<open>Dir\<close> for a directory
  entry, which \<open>zipfile\<close> lists under that name followed by a separator). Paths are
  compared as strings, so a state is meant to name every node by one
  normalised path and to hold a \<open>Dir\<close> for each directory above a node. An operation
  takes the state and returns its outcome, an exception or a value, with the new state.
  Reading and writing a regular file that is there always succeeds in this model;
  \<open>scan_folder\<close>, where a read may fail, takes the reads as a parameter instead.
\<close>

datatype node = File string | Dir | ZipArchive "(string \<times> node) list"

type_synonym filesystem = "string \<rightharpoonup> node"

type_synonym 'a io = "filesystem \<Rightarrow> (error + 'a) \<times> filesystem"

definition exists :: "filesystem \<Rightarrow> string \<Rightarrow> bool" where
  "exists fs p = (fs p \<noteq> None)"

definition isdir :: "filesystem \<Rightarrow> string \<Rightarrow> bool" where
  "isdir fs p = (fs p = Some Dir)"

text \<open>
  What the file system finds when it follows a path that need not be normalised, as
  \<open>create_zip\<close> does with the names of a plan: from the root or the working directory
  (the path \<open>[]\<close>), component by component. A component after a regular file fails;
  \<open>..\<close> needs the directory it leaves to be there and leads to its parent (from the
  working directory to \<open>..\<close>, and on to \<open>../..\<close>); an empty component and \<open>.\<close> stay.
  The result is the node at the normalised path reached. \<open>os.path.exists\<close> is
  \<open>False\<close> for the empty path and for a path that holds a null character.
\<close>

definition regular :: "filesystem \<Rightarrow> string \<Rightarrow> bool" where
  "regular fs p = (fs p \<noteq> None \<and> fs p \<noteq> Some Dir)"

definition parent :: "string \<Rightarrow> string" where
  "parent cur =
     (if cur = [] then ''..''
      else if basename cur = ''..'' then join cur ''..''
      else dirname cur)"

fun walk_path :: "filesystem \<Rightarrow> string \<Rightarrow> string list \<Rightarrow> node option" where
  "walk_path fs cur [] = (if cur = [] then Some Dir else fs cur)"
| "walk_path fs cur (part # comps) =
     (if regular fs cur then None
      else if part = [] \<or> part = ''.'' then walk_path fs cur comps
      else if part = ''..''
        then (if cur = [] \<or> isdir fs cur then walk_path fs (parent cur) comps else None)
      else walk_path fs (join cur part) comps)"

definition stat_path :: "filesystem \<Rightarrow> string \<Rightarrow> node option" where
  "stat_path fs p =
     (if p = [] \<or> CHR 0x00 \<in> set p then None
      else walk_path fs (if hd p = os_sep then [os_sep] else []) (split_sep p))"

text \<open>\<open>os.mkdir\<close>; a relative name without a directory part is created in the working directory.\<close>

definition mkdir :: "string \<Rightarrow> unit io" where
  "mkdir name fs =
     (if name = [] then (Inl (FileNotFoundError name), fs)
      else if exists fs name then (Inl (FileExistsError name), fs)
      else if dirname name \<noteq> [] \<and> \<not> exists fs (dirname name)
        then (Inl (FileNotFoundError name), fs)
      else if dirname name \<noteq> [] \<and> \<not> isdir fs (dirname name)
        then (Inl (NotADirectoryError name), fs)
      else (Inr (), fs(name \<mapsto> Dir)))"

text \<open>
  The last step of \<open>os.makedirs(name, exist_ok=True)\<close>: \<open>mkdir\<close>, whose \<open>OSError\<close> is
  dropped when \<open>name\<close> is a directory.
\<close>

definition mkdir_exist_ok :: "string \<Rightarrow> unit io" where
  "mkdir_exist_ok name fs =
     (case mkdir name fs of
        (Inl e, fs') \<Rightarrow> if isdir fs' name then (Inr (), fs') else (Inl e, fs')
      | (Inr u, fs') \<Rightarrow> (Inr u, fs'))"

text \<open>
  The first lines of \<open>os.makedirs\<close>: \<open>head, tail = path.split(name)\<close>, and once more
  on the head when the tail is empty (a name that ends with a separator).
\<close>

definition makedirs_split :: "string \<Rightarrow> string \<times> string" where
  "makedirs_split name =
     (if snd (path_split name) = [] then path_split (fst (path_split name))
      else path_split name)"

text \<open>
  \<open>os.makedirs(name, exist_ok=True)\<close>: when the head is missing, create it first,
  passing over a \<open>FileExistsError\<close> from there, and stop if the tail is \<open>.\<close>; then
  create \<open>name\<close>. \<open>ZipFile.extractall\<close> calls \<open>os.makedirs\<close> without \<open>exist_ok\<close>, but
  only on a path that does not exist, where the two agree.
\<close>

function makedirs :: "string \<Rightarrow> unit io" where
  "makedirs name fs =
     (if fst (makedirs_split name) \<noteq> [] \<and> snd (makedirs_split name) \<noteq> []
         \<and> \<not> exists fs (fst (makedirs_split name))
      then
        (case makedirs (fst (makedirs_split name)) fs of
           (Inl (FileExistsError x), fs') \<Rightarrow>
             if snd (makedirs_split name) = ''.'' then (Inr (), fs')
             else mkdir_exist_ok name fs'
         | (Inl e, fs') \<Rightarrow> (Inl e, fs')
         | (Inr u, fs') \<Rightarrow>
             if snd (makedirs_split name) = ''.'' then (Inr (), fs')
             else mkdir_exist_ok name fs')
      else mkdir_exist_ok name fs)"
  by pat_completeness auto
termination
proof (relation "measure (\<lambda>(name, fs). length name)", goal_cases)
  case 1
  show ?case by simp
next
  case (2 name fs)
  have dw: "length (dropWhile P xs) \<le> length xs" for P and xs :: string
    by (induction xs) auto
  have strip: "length (rstrip_sep s) \<le> length s" for s
    using dw [of "\<lambda>c. c = os_sep" "rev s"] by (simp add: rstrip_sep_def)
  have le: "length (fst (path_split p)) \<le> length p" for p
    using dw [of "\<lambda>c. c \<noteq> os_sep" "rev p"]
      strip [of "rev (dropWhile (\<lambda>c. c \<noteq> os_sep) (rev p))"]
    by (auto simp: path_split_def Let_def)
  have less: "length (fst (path_split p)) < length p" if b: "snd (path_split p) \<noteq> []" for p
  proof -
    let ?h = "rev (dropWhile (\<lambda>c. c \<noteq> os_sep) (rev p))"
    let ?t = "rev (takeWhile (\<lambda>c. c \<noteq> os_sep) (rev p))"
    have "rev p = takeWhile (\<lambda>c. c \<noteq> os_sep) (rev p) @ dropWhile (\<lambda>c. c \<noteq> os_sep) (rev p)"
      by simp
    then have "length p = length ?t + length ?h"
      by (metis length_append length_rev)
    moreover have "?t \<noteq> []"
      using b by (simp add: path_split_def Let_def)
    ultimately have "length ?h < length p" by (cases ?t) auto
    with strip [of ?h] show ?thesis
      by (auto simp: path_split_def Let_def)
  qed
  from 2 show ?case
    using less [of name] less [of "fst (path_split name)"] le [of name]
    by (auto simp: makedirs_split_def split: if_splits)
qed

text \<open>\<open>open(p, "wb")\<close> followed by writing the whole content and closing.\<close>

definition open_write :: "string \<Rightarrow> node \<Rightarrow> unit io" where
  "open_write p content fs =
     (if p = [] then (Inl (FileNotFoundError p), fs)
      else if isdir fs p then (Inl (IsADirectoryError p), fs)
      else if dirname p \<noteq> [] \<and> \<not> exists fs (dirname p) then (Inl (FileNotFoundError p), fs)
      else if dirname p \<noteq> [] \<and> \<not> isdir fs (dirname p) then (Inl (NotADirectoryError p), fs)
      else (Inr (), fs(p \<mapsto> content)))"

text \<open>
  \<open>zipfile.ZipFile(zip_path, 'r')\<close> and the list of its members. \<open>zip_path\<close> is \<open>None\<close>
  when the \<open>FileProcessor\<close> was built without one; a file of plain bytes is not an archive.
\<close>

definition zipfile_read :: "string option \<Rightarrow> filesystem \<Rightarrow> error + (string \<times> node) list" where
  "zipfile_read zpath fs =
     (case zpath of
        None \<Rightarrow> Inl AttributeError
      | Some p \<Rightarrow>
          (case fs p of
             None \<Rightarrow> Inl (FileNotFoundError p)
           | Some Dir \<Rightarrow> Inl (IsADirectoryError p)
           | Some (File b) \<Rightarrow> Inl BadZipFile
           | Some (ZipArchive members) \<Rightarrow> Inr members))"

text \<open>
  Where \<open>ZipFile.extractall(path)\<close> puts a member: the name loses its empty, \<open>.\<close> and
  \<open>..\<close> components (so also a leading and a final separator), is joined to \<open>path\<close>,
  and the result is normalised.
\<close>

definition extract_arcname :: "string \<Rightarrow> string" where
  "extract_arcname name =
     sep_join (filter (\<lambda>x. x \<noteq> [] \<and> x \<noteq> ''.'' \<and> x \<noteq> ''..'') (split_sep name))"

definition extract_target :: "string \<Rightarrow> string \<Rightarrow> string" where
  "extract_target path name = normpath (join path (extract_arcname name))"

text \<open>
  \<open>ZipFile.extractall(path)\<close>, member by member: create the upper directories when
  missing, then make the directory of a directory entry or write the file, replacing a
  file that is there.
\<close>

definition extract_member :: "string \<Rightarrow> string \<times> node \<Rightarrow> unit io" where
  "extract_member path member fs =
     (let targetpath = extract_target path (fst member);
          upperdirs = dirname targetpath
      in case (if upperdirs \<noteq> [] \<and> \<not> exists fs upperdirs
               then makedirs upperdirs fs else (Inr (), fs)) of
           (Inl e, fs1) \<Rightarrow> (Inl e, fs1)
         | (Inr u, fs1) \<Rightarrow>
             (case snd member of
                Dir \<Rightarrow> if isdir fs1 targetpath then (Inr (), fs1) else mkdir targetpath fs1
              | File b \<Rightarrow> open_write targetpath (File b) fs1
              | ZipArchive ms \<Rightarrow> open_write targetpath (ZipArchive ms) fs1))"

fun extractall :: "(string \<times> node) list \<Rightarrow> string \<Rightarrow> unit io" where
  "extractall [] path fs = (Inr (), fs)"
| "extractall (member # members) path fs =
     (case extract_member path member fs of
        (Inl e, fs1) \<Rightarrow> (Inl e, fs1)
      | (Inr u, fs1) \<Rightarrow> extractall members path fs1)"

text \<open>
  \<open>os.rename(src, real_dst)\<close> with the fallback of \<open>shutil.move\<close> (copy, then delete the
  source) when the rename fails: a regular file replaces a regular file at the
  destination; a directory moves with everything below it, and neither onto a file nor
  into itself.
\<close>

definition rename_dir :: "string \<Rightarrow> string \<Rightarrow> filesystem \<Rightarrow> filesystem" where
  "rename_dir src dst fs =
     (\<lambda>p. if p = dst then Some Dir
          else if under dst p then fs (src @ drop (length dst) p)
          else if p = src \<or> under src p then None
          else fs p)"

definition move_to :: "string \<Rightarrow> string \<Rightarrow> unit io" where
  "move_to src real_dst fs =
     (case fs src of
        None \<Rightarrow> (Inl (FileNotFoundError src), fs)
      | Some Dir \<Rightarrow>
          if exists fs real_dst then (Inl (FileExistsError real_dst), fs)
          else if under src real_dst then (Inl (ShutilError real_dst), fs)
          else if dirname real_dst \<noteq> [] \<and> \<not> isdir fs (dirname real_dst)
            then (Inl (FileNotFoundError real_dst), fs)
          else (Inr (), rename_dir src real_dst fs)
      | Some content \<Rightarrow>
          if dirname real_dst \<noteq> [] \<and> \<not> isdir fs (dirname real_dst)
            then (Inl (FileNotFoundError real_dst), fs)
          else (Inr (), (fs(src := None))(real_dst \<mapsto> content)))"

text \<open>
  \<open>shutil.move(src, dst)\<close>: into \<open>dst\<close> when \<open>dst\<close> is a directory (an error when the
  name is taken there), onto \<open>dst\<close> otherwise.
\<close>

definition shutil_move :: "string \<Rightarrow> string \<Rightarrow> unit io" where
  "shutil_move src dst fs =
     (if isdir fs dst then
        (if src = dst then (Inr (), fs)
         else
           (let real_dst = join dst (basename (rstrip_sep src))
            in if exists fs real_dst then (Inl (ShutilError real_dst), fs)
               else move_to src real_dst fs))
      else move_to src dst fs)"

subsection \<open>\<open>scan_folder\<close>\<close>

text \<open>
  The environment of a scan: the digest function (\<open>hashlib.md5\<close> fed with the chunks of
  4096 bytes, which is the digest of the whole content), the outcome of opening and
  reading a file to its end (an exception or the bytes), \<open>os.path.exists\<close>, and what
  \<open>os.walk\<close> yields for a folder (a list of \<open>(root, dirs, files)\<close>). The progress and
  status signals are not part of the result and are left out.
\<close>

type_synonym walk = "(string \<times> string list \<times> string list) list"

fun scan_files ::
  "(string \<Rightarrow> string) \<Rightarrow> (string \<Rightarrow> error + string) \<Rightarrow> string \<Rightarrow> string \<Rightarrow> string list
    \<Rightarrow> json_obj list \<Rightarrow> json_obj list" where
  "scan_files md5 read_file folder_path root [] file_data = file_data"
| "scan_files md5 read_file folder_path root (file # files) file_data =
     (let file_path = join root file;
          relative_path = relpath file_path folder_path
      in case read_file file_path of
           Inl e \<Rightarrow> scan_files md5 read_file folder_path root files file_data
         | Inr contents \<Rightarrow>
             scan_files md5 read_file folder_path root files
               (file_data @ [file_record (str_replace os_sep CHR ''/'' relative_path)
                                         (md5 contents)]))"

fun scan_walk ::
  "(string \<Rightarrow> string) \<Rightarrow> (string \<Rightarrow> error + string) \<Rightarrow> string \<Rightarrow> walk
    \<Rightarrow> json_obj list \<Rightarrow> json_obj list" where
  "scan_walk md5 read_file folder_path [] file_data = file_data"
| "scan_walk md5 read_file folder_path ((root, dirs, files) # rest) file_data =
     scan_walk md5 read_file folder_path rest
       (scan_files md5 read_file folder_path root files file_data)"

definition scan_folder ::
  "(string \<Rightarrow> string) \<Rightarrow> (string \<Rightarrow> error + string) \<Rightarrow> (string \<Rightarrow> bool) \<Rightarrow> (string \<Rightarrow> walk)
    \<Rightarrow> string option \<Rightarrow> error + json_obj list" where
  "scan_folder md5 read_file path_exists os_walk folder_path =
     (case folder_path of
        None \<Rightarrow> Inl InvalidFolderPath
      | Some folder \<Rightarrow>
          if folder = [] \<or> \<not> path_exists folder then Inl InvalidFolderPath
          else Inr (scan_walk md5 read_file folder (os_walk folder) []))"

subsection \<open>\<open>create_zip\<close>\<close>

text \<open>The result dict of \<open>create_zip\<close>: \<open>zip_path\<close> (or \<open>None\<close>) and, with \<open>None\<close>, a message.\<close>

datatype zip_result = ZipResult (result_zip_path: "string option") (result_message: "string option")

text \<open>\<open>[item for item in convert_data if item["status"] == "copy"]\<close>\<close>

fun files_to_zip :: "json_obj list \<Rightarrow> error + json_obj list" where
  "files_to_zip [] = Inr []"
| "files_to_zip (item # items) =
     (case getitem item ''status'' of
        Inl e \<Rightarrow> Inl e
      | Inr status \<Rightarrow>
          (case files_to_zip items of
             Inl e \<Rightarrow> Inl e
           | Inr rest \<Rightarrow> Inr (if status = ''copy'' then item # rest else rest)))"

text \<open>
  The name \<open>ZipInfo.from_file\<close> gives a member: the normalised \<open>arcname\<close> without its
  leading separators. When nothing is left the subscript \<open>arcname[0]\<close> raises
  \<open>IndexError\<close>. For a directory the name gets a final separator: the model keeps the
  member as the name with \<open>Dir\<close>, and \<open>entry_name\<close> is the name the archive lists.
\<close>

definition zip_arcname :: "string \<Rightarrow> string" where
  "zip_arcname arcname = dropWhile (\<lambda>c. c = os_sep) (normpath arcname)"

definition entry_name :: "string \<times> node \<Rightarrow> string" where
  "entry_name member = (if snd member = Dir then fst member @ [os_sep] else fst member)"

text \<open>
  The loop over \<open>files_to_zip\<close> inside the \<open>with\<close> block: the members written so far are
  returned with the outcome, since leaving the block closes the archive with them, also
  on an exception. \<open>zipf.write(file_path, item["filename"])\<close> stores what the file
  system finds at \<open>file_path\<close> (a file, or a directory as an entry of its own) under the
  name \<open>ZipInfo.from_file\<close> makes of \<open>item["filename"]\<close>.
\<close>

fun zip_members ::
  "json_obj list \<Rightarrow> string \<Rightarrow> filesystem \<Rightarrow> (string \<times> node) list
    \<Rightarrow> error option \<times> (string \<times> node) list" where
  "zip_members [] to_folder fs members = (None, members)"
| "zip_members (item # items) to_folder fs members =
     (case getitem item ''filename'' of
        Inl e \<Rightarrow> (Some e, members)
      | Inr filename \<Rightarrow>
          (let file_path = join to_folder (str_replace CHR ''/'' os_sep filename)
           in case stat_path fs file_path of
                None \<Rightarrow> zip_members items to_folder fs members
              | Some content \<Rightarrow>
                  if zip_arcname filename = [] then (Some IndexError, members)
                  else zip_members items to_folder fs
                         (members @ [(zip_arcname filename, content)])))"

text \<open>
  \<open>create_zip\<close>. Opening the archive for writing truncates the file at \<open>zip_path\<close>, which
  holds no bytes while the members are read.
\<close>

definition create_zip :: "json_obj list \<Rightarrow> string \<Rightarrow> zip_result io" where
  "create_zip convert_data to_folder fs =
     (case files_to_zip convert_data of
        Inl e \<Rightarrow> (Inl e, fs)
      | Inr [] \<Rightarrow> (Inr (ZipResult None (Some ''No files to zip'')), fs)
      | Inr (f # fz) \<Rightarrow>
          (let zpath = join (dirname to_folder) ''version_update.zip''
           in case open_write zpath (File []) fs of
                (Inl e, fs1) \<Rightarrow> (Inl e, fs1)
              | (Inr u, fs1) \<Rightarrow>
                  (case zip_members (f # fz) to_folder fs1 [] of
                     (Some e, members) \<Rightarrow> (Inl e, fs1(zpath \<mapsto> ZipArchive members))
                   | (None, members) \<Rightarrow>
                       (Inr (ZipResult (Some zpath) None), fs1(zpath \<mapsto> ZipArchive members)))))"

subsection \<open>\<open>equalize_versions\<close>\<close>

text \<open>The loop over \<open>convert_data\<close> that moves the extra files; \<open>moved_files\<close> is the accumulator.\<close>

fun move_extra_files :: "json_obj list \<Rightarrow> string \<Rightarrow> string \<Rightarrow> string list \<Rightarrow> string list io" where
  "move_extra_files [] from_folder extra_files_dir moved_files fs = (Inr moved_files, fs)"
| "move_extra_files (item # items) from_folder extra_files_dir moved_files fs =
     (case getitem item ''status'' of
        Inl e \<Rightarrow> (Inl e, fs)
      | Inr status \<Rightarrow>
          if status = ''move'' then
            (case getitem item ''filename'' of
               Inl e \<Rightarrow> (Inl e, fs)
             | Inr filename \<Rightarrow>
                 (let source_path = join from_folder (str_replace CHR ''/'' os_sep filename)
                  in if exists fs source_path then
                       (let dest_path = join extra_files_dir (str_replace CHR ''/'' os_sep filename)
                        in case makedirs (dirname dest_path) fs of
                             (Inl e, fs1) \<Rightarrow> (Inl e, fs1)
                           | (Inr u, fs1) \<Rightarrow>
                               (case shutil_move source_path dest_path fs1 of
                                  (Inl e, fs2) \<Rightarrow> (Inl e, fs2)
                                | (Inr u', fs2) \<Rightarrow>
                                    move_extra_files items from_folder extra_files_dir
                                      (moved_files @ [filename]) fs2))
                     else move_extra_files items from_folder extra_files_dir moved_files fs))
          else move_extra_files items from_folder extra_files_dir moved_files fs)"

text \<open>\<open>equalize_versions\<close>; the value returned is the list \<open>moved_files\<close>.\<close>

definition equalize_versions :: "json_obj list \<Rightarrow> string \<Rightarrow> string option \<Rightarrow> string list io" where
  "equalize_versions convert_data from_folder zpath fs =
     (case zipfile_read zpath fs of
        Inl e \<Rightarrow> (Inl e, fs)
      | Inr members \<Rightarrow>
          (case extractall members from_folder fs of
             (Inl e, fs1) \<Rightarrow> (Inl e, fs1)
           | (Inr u, fs1) \<Rightarrow>
               (let extra_files_dir = join from_folder ''ExtraFiles_VersionEqualizer''
                in case makedirs extra_files_dir fs1 of
                     (Inl e, fs2) \<Rightarrow> (Inl e, fs2)
                   | (Inr u', fs2) \<Rightarrow>
                       move_extra_files convert_data from_folder extra_files_dir [] fs2)))"

subsection \<open>Notions used in the statements\<close>

text \<open>The paths of the files a walk yields, in the order \<open>scan_folder\<close> visits them.\<close>

definition walked_files :: "walk \<Rightarrow> string list" where
  "walked_files w = concat (map (\<lambda>(root, dirs, files). map (join root) files) w)"

text \<open>The record \<open>scan_folder\<close> appends for a file, or none when reading it fails.\<close>

definition scanned_record ::
  "(string \<Rightarrow> string) \<Rightarrow> (string \<Rightarrow> error + string) \<Rightarrow> string \<Rightarrow> string \<Rightarrow> json_obj option" where
  "scanned_record md5 read_file folder_path file_path =
     (case read_file file_path of
        Inl e \<Rightarrow> None
      | Inr contents \<Rightarrow>
          Some (file_record (str_replace os_sep CHR ''/'' (relpath file_path folder_path))
                            (md5 contents)))"

text \<open>The names a plan marks \<open>copy\<close>.\<close>

definition copy_names :: "json_obj list \<Rightarrow> string set" where
  "copy_names convert_data =
     {name. \<exists>item \<in> set convert_data.
        item ''status'' = Some ''copy'' \<and> item ''filename'' = Some name}"


subsection \<open>Two trees that hold a quarantine directory\<close>

text \<open>
  A current folder \<open>c\<close> that was equalized before: \<open>a.txt\<close> was quarantined then (bytes
  \<open>old\<close>) and a file of that name is there again (bytes \<open>new\<close>). The target holds only
  \<open>b.txt\<close>, which the archive \<open>u.zip\<close> delivers. The plan is what \<open>compare_versions\<close>
  returns for the snapshots of the two trees, the records of \<open>c\<close> in the order of its
  walk (the files of the folder before those of its subdirectory).
\<close>

definition requarantine_tree :: filesystem where
  "requarantine_tree =
     [''c'' \<mapsto> Dir,
      ''c/a.txt'' \<mapsto> File ''new'',
      ''c/ExtraFiles_VersionEqualizer'' \<mapsto> Dir,
      ''c/ExtraFiles_VersionEqualizer/a.txt'' \<mapsto> File ''old'',
      ''u.zip'' \<mapsto> ZipArchive [(''b.txt'', File ''B'')]]"

definition requarantine_plan :: "json_obj list" where
  "requarantine_plan =
     [plan_entry ''b.txt'' ''copy'',
      plan_entry ''a.txt'' ''move'',
      plan_entry ''ExtraFiles_VersionEqualizer/a.txt'' ''move'']"

text \<open>
  A target folder \<open>t\<close> that holds a file below \<open>ExtraFiles_VersionEqualizer\<close> (bytes \<open>A\<close>),
  and a current folder \<open>c\<close> that holds a file of the same name at its top (bytes \<open>Q\<close>).
  The plan is what \<open>compare_versions\<close> returns for their snapshots, the archive what
  \<open>create_zip\<close> writes for that plan.
\<close>

definition nested_target :: filesystem where
  "nested_target =
     [''t'' \<mapsto> Dir,
      ''t/ExtraFiles_VersionEqualizer'' \<mapsto> Dir,
      ''t/ExtraFiles_VersionEqualizer/q.txt'' \<mapsto> File ''A'']"

definition nested_plan :: "json_obj list" where
  "nested_plan =
     [plan_entry ''ExtraFiles_VersionEqualizer/q.txt'' ''copy'',
      plan_entry ''q.txt'' ''move'']"

definition nested_current :: filesystem where
  "nested_current =
     [''c'' \<mapsto> Dir,
      ''c/q.txt'' \<mapsto> File ''Q'',
      ''version_update.zip'' \<mapsto> ZipArchive [(''ExtraFiles_VersionEqualizer/q.txt'', File ''A'')]]"

section \<open>Properties\<close>

declare makedirs.simps [simp del]

subsection \<open>Facts about dicts\<close>

lemma dict_set_keys:
  "map fst (dict_set d k v) = (if k \<in> set (map fst d) then map fst d else map fst d @ [k])"
  by (induction d) (fastforce+)

lemma dict_set_distinct: "distinct (map fst d) \<Longrightarrow> distinct (map fst (dict_set d k v))"
  by (simp add: dict_set_keys)

lemma map_of_dict_set: "map_of (dict_set d k v) = (map_of d)(k \<mapsto> v)"
  by (induction d) (auto simp: fun_eq_iff)

lemma dict_set_fresh: "k \<notin> set (map fst d) \<Longrightarrow> dict_set d k v = d @ [(k, v)]"
  by (induction d) auto

lemma files_dict_snapshot_unique:
  "distinct (map fst d @ map fst recs) \<Longrightarrow> files_dict (snapshot recs) d = Inr (d @ recs)"
proof (induction recs arbitrary: d)
  case Nil
  then show ?case by (simp add: snapshot_def)
next
  case (Cons r recs)
  obtain p h where r: "r = (p, h)" by (cases r)
  have fresh: "p \<notin> set (map fst d)" using Cons.prems by (auto simp: r)
  have "distinct (map fst (d @ [(p, h)]) @ map fst recs)"
    using Cons.prems by (auto simp: r)
  from Cons.IH [OF this] show ?case
    using fresh by (simp add: snapshot_def r getitem_def file_record_def dict_set_fresh)
qed

lemma plan_entry_eq_iff: "plan_entry p s = plan_entry p' s' \<longleftrightarrow> p = p' \<and> s = s'"
proof
  assume eq: "plan_entry p s = plan_entry p' s'"
  have "plan_entry p s ''filename'' = plan_entry p' s' ''filename''"
    and "plan_entry p s ''status'' = plan_entry p' s' ''status''"
    using eq by simp_all
  then show "p = p' \<and> s = s'" by (simp add: plan_entry_def)
qed simp

lemma files_dict_snapshot_general:
  "distinct (map fst d) \<Longrightarrow>
   \<exists>d'. files_dict (snapshot recs) d = Inr d' \<and> distinct (map fst d')
      \<and> map_of d' = map_of d ++ map_of (rev recs)
      \<and> set (map fst d') = set (map fst d) \<union> set (map fst recs)"
proof (induction recs arbitrary: d)
  case Nil
  then show ?case by (simp add: snapshot_def)
next
  case (Cons r recs)
  obtain p h where r: "r = (p, h)" by (cases r)
  have "distinct (map fst (dict_set d p h))"
    using Cons.prems by (rule dict_set_distinct)
  from Cons.IH [OF this] obtain d' where d':
    "files_dict (snapshot recs) (dict_set d p h) = Inr d'" "distinct (map fst d')"
    "map_of d' = map_of (dict_set d p h) ++ map_of (rev recs)"
    "set (map fst d') = set (map fst (dict_set d p h)) \<union> set (map fst recs)"
    by blast
  have m: "map_of d' = map_of d ++ map_of (rev (r # recs))"
    unfolding d'(3) by (simp add: r map_of_dict_set map_add_def fun_eq_iff split: option.splits)
  have s: "set (map fst d') = set (map fst d) \<union> set (map fst (r # recs))"
    unfolding d'(4) by (auto simp: r dict_set_keys)
  show ?case
    using d'(1,2) m s by (simp add: snapshot_def r getitem_def file_record_def)
qed

lemma count_list_entries:
  "distinct (map fst xs) \<Longrightarrow>
   count_list (map (\<lambda>(k, v). plan_entry k s) (filter P xs)) (plan_entry p s') =
     (if s = s' \<and> (\<exists>v. (p, v) \<in> set xs \<and> P (p, v)) then 1 else 0)"
proof (induction xs)
  case Nil
  then show ?case by simp
next
  case (Cons x xs)
  obtain k v where x: "x = (k, v)" by (cases x)
  from Cons.prems have fresh: "k \<notin> fst ` set xs" and dist: "distinct (map fst xs)"
    by (auto simp: x)
  show ?case
    using Cons.IH [OF dist] fresh
    by (auto simp: x plan_entry_eq_iff image_iff)
qed

lemma count_list_append: "count_list (xs @ ys) y = count_list xs y + count_list ys y"
  by (induction xs) auto

subsection \<open>Completeness of the comparison\<close>

text \<open>
  Claim C1. For snapshots \<open>target\<close> and \<open>current\<close> whose paths are unique,
  \<open>compare_versions\<close> returns a plan that holds exactly one \<open>copy\<close> entry for each path
  of \<open>target\<close> that is absent from \<open>current\<close> or has another digest there, exactly one
  \<open>move\<close> entry for each path of \<open>current\<close> that is absent from \<open>target\<close>, and nothing
  else: no \<open>copy\<close> or \<open>move\<close> entry for any other path (a path with equal digests on both
  sides among them), and no entry of another form.
\<close>

theorem compare_versions_complete:
  assumes "distinct (map fst target)" and "distinct (map fst current)"
  shows "\<exists>plan. compare_versions (snapshot target) (snapshot current) = Inr plan
    \<and> (\<forall>p. count_list plan (plan_entry p ''copy'') =
          (if \<exists>h. (p, h) \<in> set target
                \<and> (p \<notin> fst ` set current \<or> (\<exists>h'. (p, h') \<in> set current \<and> h' \<noteq> h))
           then 1 else 0))
    \<and> (\<forall>p. count_list plan (plan_entry p ''move'') =
          (if p \<in> fst ` set current \<and> p \<notin> fst ` set target then 1 else 0))
    \<and> (\<forall>e \<in> set plan. \<exists>p. e = plan_entry p ''copy'' \<or> e = plan_entry p ''move'')"
proof -
  let ?P = "\<lambda>(filename, hash_value).
      \<not> dict_contains current filename \<or> map_of current filename \<noteq> Some hash_value"
  let ?Q = "\<lambda>(filename, hash_value :: string). \<not> dict_contains target filename"
  let ?plan = "map (\<lambda>(filename, hash_value). plan_entry filename ''copy'') (filter ?P target)
             @ map (\<lambda>(filename, hash_value). plan_entry filename ''move'') (filter ?Q current)"
  have t: "files_dict (snapshot target) [] = Inr target"
    using files_dict_snapshot_unique [of "[]" target] assms(1) by simp
  have c: "files_dict (snapshot current) [] = Inr current"
    using files_dict_snapshot_unique [of "[]" current] assms(2) by simp
  have eq: "compare_versions (snapshot target) (snapshot current) = Inr ?plan"
    by (simp add: compare_versions_def t c)
  have inT: "dict_contains target p \<longleftrightarrow> p \<in> fst ` set target" for p
    by (simp add: dict_contains_def map_of_eq_None_iff)
  have inC: "dict_contains current p \<longleftrightarrow> p \<in> fst ` set current" for p
    by (simp add: dict_contains_def map_of_eq_None_iff)
  have mC: "map_of current p = Some h \<longleftrightarrow> (p, h) \<in> set current" for p h
    using assms(2) by simp
  have copy: "count_list ?plan (plan_entry p ''copy'') =
          (if \<exists>h. (p, h) \<in> set target
                \<and> (p \<notin> fst ` set current \<or> (\<exists>h'. (p, h') \<in> set current \<and> h' \<noteq> h))
           then 1 else 0)" for p
  proof -
    have "(\<exists>v. (p, v) \<in> set target \<and> ?P (p, v)) \<longleftrightarrow>
          (\<exists>h. (p, h) \<in> set target
                \<and> (p \<notin> fst ` set current \<or> (\<exists>h'. (p, h') \<in> set current \<and> h' \<noteq> h)))"
      using assms(2) by (auto simp: inC mC image_iff dest: eq_key_imp_eq_value)
    then show ?thesis
      by (simp add: count_list_append count_list_entries [OF assms(1)]
          count_list_entries [OF assms(2)])
  qed
  have move: "count_list ?plan (plan_entry p ''move'') =
          (if p \<in> fst ` set current \<and> p \<notin> fst ` set target then 1 else 0)" for p
  proof -
    have "(\<exists>v. (p, v) \<in> set current \<and> ?Q (p, v)) \<longleftrightarrow>
          (p \<in> fst ` set current \<and> p \<notin> fst ` set target)"
      by (force simp: inT)
    then show ?thesis
      by (simp add: count_list_append count_list_entries [OF assms(1)]
          count_list_entries [OF assms(2)])
  qed
  have shape: "\<forall>e \<in> set ?plan. \<exists>p. e = plan_entry p ''copy'' \<or> e = plan_entry p ''move''"
    by auto
  show ?thesis using eq copy move shape by blast
qed

theorem compare_versions_complete_witness:
  "distinct (map fst [(''a.txt'', ''D1'')])
   \<and> distinct (map fst [(''a.txt'', ''D2''), (''b.txt'', ''D3'')])
   \<and> (\<exists>plan. compare_versions (snapshot [(''a.txt'', ''D1'')])
               (snapshot [(''a.txt'', ''D2''), (''b.txt'', ''D3'')]) = Inr plan
        \<and> count_list plan (plan_entry ''a.txt'' ''copy'') = 1
        \<and> count_list plan (plan_entry ''b.txt'' ''move'') = 1
        \<and> count_list plan (plan_entry ''b.txt'' ''copy'') = 0
        \<and> count_list plan (plan_entry ''a.txt'' ''move'') = 0)"
proof -
  have h1: "distinct (map fst [(''a.txt'', ''D1'')])" by simp
  have h2: "distinct (map fst [(''a.txt'', ''D2''), (''b.txt'', ''D3'')])" by simp
  from compare_versions_complete [OF h1 h2] obtain plan where
    p: "compare_versions (snapshot [(''a.txt'', ''D1'')])
               (snapshot [(''a.txt'', ''D2''), (''b.txt'', ''D3'')]) = Inr plan"
    and c: "\<And>p. count_list plan (plan_entry p ''copy'') =
          (if \<exists>h. (p, h) \<in> set [(''a.txt'', ''D1'')]
                \<and> (p \<notin> fst ` set [(''a.txt'', ''D2''), (''b.txt'', ''D3'')]
                   \<or> (\<exists>h'. (p, h') \<in> set [(''a.txt'', ''D2''), (''b.txt'', ''D3'')] \<and> h' \<noteq> h))
           then 1 else 0)"
    and m: "\<And>p. count_list plan (plan_entry p ''move'') =
          (if p \<in> fst ` set [(''a.txt'', ''D2''), (''b.txt'', ''D3'')]
              \<and> p \<notin> fst ` set [(''a.txt'', ''D1'')] then 1 else 0)"
    by blast
  have "count_list plan (plan_entry ''a.txt'' ''copy'') = 1"
    unfolding c by simp
  moreover have "count_list plan (plan_entry ''b.txt'' ''copy'') = 0"
    unfolding c by simp
  moreover have "count_list plan (plan_entry ''b.txt'' ''move'') = 1"
    unfolding m by simp
  moreover have "count_list plan (plan_entry ''a.txt'' ''move'') = 0"
    unfolding m by simp
  ultimately show ?thesis using h1 h2 p by blast
qed

subsection \<open>Comparing a snapshot with itself\<close>

lemma scan_files_snapshot:
  "\<exists>recs'. scan_files md5 read_file folder root files (snapshot recs) = snapshot recs'"
proof (induction files arbitrary: recs)
  case Nil
  then show ?case by auto
next
  case (Cons f files)
  show ?case
  proof (cases "read_file (join root f)")
    case (Inl e)
    then show ?thesis using Cons.IH [of recs] by simp
  next
    case (Inr contents)
    let ?r = "(str_replace os_sep CHR ''/'' (relpath (join root f) folder), md5 contents)"
    have "snapshot recs @ [file_record (fst ?r) (snd ?r)] = snapshot (recs @ [?r])"
      by (simp add: snapshot_def)
    then show ?thesis using Cons.IH [of "recs @ [?r]"] Inr by simp
  qed
qed

lemma scan_walk_snapshot:
  "\<exists>recs'. scan_walk md5 read_file folder w (snapshot recs) = snapshot recs'"
proof (induction w arbitrary: recs)
  case Nil
  then show ?case by auto
next
  case (Cons x w)
  obtain root dirs files where x: "x = (root, dirs, files)" by (cases x)
  obtain recs1 where "scan_files md5 read_file folder root files (snapshot recs) = snapshot recs1"
    using scan_files_snapshot by blast
  then show ?case using Cons.IH [of recs1] by (simp add: x)
qed

lemma scan_folder_snapshot:
  assumes "scan_folder md5 read_file path_exists os_walk folder_path = Inr s"
  shows "\<exists>recs. s = snapshot recs"
proof -
  obtain folder where f: "folder_path = Some folder"
    and s: "s = scan_walk md5 read_file folder (os_walk folder) []"
    using assms by (auto simp: scan_folder_def split: option.splits if_splits)
  have "snapshot [] = []" by (simp add: snapshot_def)
  with scan_walk_snapshot [of md5 read_file folder "os_walk folder" "[]"] s
  show ?thesis by auto
qed

lemma files_dict_snapshot_last_wins:
  "\<exists>d. files_dict (snapshot recs) [] = Inr d \<and> distinct (map fst d)
      \<and> map_of d = map_of (rev recs) \<and> fst ` set d = fst ` set recs"
  using files_dict_snapshot_general [of "[]" recs] by auto

lemma compare_versions_same: "compare_versions (snapshot recs) (snapshot recs) = Inr []"
proof -
  obtain d where d: "files_dict (snapshot recs) [] = Inr d" and dist: "distinct (map fst d)"
    using files_dict_snapshot_last_wins by blast
  have "map_of d k = Some v" if "(k, v) \<in> set d" for k v
    using dist that by simp
  then have "filter (\<lambda>(filename, hash_value).
                 \<not> dict_contains d filename \<or> map_of d filename \<noteq> Some hash_value) d = []"
    and "filter (\<lambda>(filename, hash_value). \<not> dict_contains d filename) d = []"
    by (auto simp: filter_empty_conv dict_contains_def)
  then show ?thesis by (simp add: compare_versions_def d)
qed

text \<open>
  Claim C4. Comparing a snapshot with itself gives the empty plan, whatever its records
  (repeated paths included); in particular so does comparing the result of a scan with
  itself, since a scan returns a snapshot.
\<close>

theorem compare_versions_identity:
  "compare_versions (snapshot recs) (snapshot recs) = Inr []
   \<and> (scan_folder md5 read_file path_exists os_walk folder_path = Inr s
        \<longrightarrow> compare_versions s s = Inr [])"
  using compare_versions_same scan_folder_snapshot by blast

theorem compare_versions_identity_witness:
  "scan_folder (\<lambda>b. b) (\<lambda>p. Inr ''x'') (\<lambda>p. True) (\<lambda>p. [(p, [], [''a''])]) (Some ''t'')
     = Inr [file_record ''a'' ''x'']
   \<and> compare_versions [file_record ''a'' ''x''] [file_record ''a'' ''x''] = Inr []"
proof -
  have h: "scan_folder (\<lambda>b. b) (\<lambda>p. Inr ''x'') (\<lambda>p. True) (\<lambda>p. [(p, [], [''a''])]) (Some ''t'')
     = Inr [file_record ''a'' ''x'']"
    by (simp add: scan_folder_def join_def relpath_def str_replace_def os_sep_def)
  from compare_versions_identity [of "[]" "\<lambda>b. b" "\<lambda>p. Inr ''x''" "\<lambda>p. True"
      "\<lambda>p. [(p, [], [''a''])]" "Some ''t''" "[file_record ''a'' ''x'']"] h
  show ?thesis by blast
qed

subsection \<open>Snapshots with a repeated path\<close>

lemma distinct_map_plan_entry:
  "distinct (map fst xs) \<Longrightarrow> distinct (map (\<lambda>(k, v). plan_entry k s) (filter P xs))"
proof -
  assume d: "distinct (map fst xs)"
  have "distinct (map fst (filter P xs))" using d by (rule distinct_map_filter)
  moreover have "map (\<lambda>(k, v). plan_entry k s) (filter P xs)
      = map (\<lambda>k. plan_entry k s) (map fst (filter P xs))"
    by (simp add: case_prod_unfold)
  moreover have "inj (\<lambda>k. plan_entry k s)"
    by (simp add: inj_def plan_entry_eq_iff)
  ultimately show ?thesis
    by (simp only: distinct_map) (auto intro: inj_on_subset)
qed

text \<open>
  Claim C7 reads: a snapshot that holds two records with the same path makes the
  comparison fail with a data-integrity error. The dict comprehensions raise nothing on
  a repeated key: here the target snapshot has \<open>a.txt\<close> twice, with digests \<open>D1\<close> and
  \<open>D2\<close>, and the comparison returns a plan, the one the digest \<open>D2\<close> of the last record
  gives.
\<close>

theorem compare_versions_duplicate_counterexample:
  "\<not> distinct (map fst [(''a.txt'', ''D1''), (''a.txt'', ''D2'')])
   \<and> compare_versions (snapshot [(''a.txt'', ''D1''), (''a.txt'', ''D2'')])
        (snapshot [(''a.txt'', ''D2'')]) = Inr []
   \<and> compare_versions (snapshot [(''a.txt'', ''D1''), (''a.txt'', ''D2'')])
        (snapshot [(''a.txt'', ''D1'')]) = Inr [plan_entry ''a.txt'' ''copy'']"
  by (simp add: compare_versions_def snapshot_def file_record_def getitem_def dict_contains_def)

text \<open>
  Claim C7, amended. On snapshots of records the comparison never fails, repeated paths
  included: it returns a plan without repeated entries, in which a path of the target is
  marked \<open>copy\<close> exactly when the digest of its last record in the target differs from
  that of its last record in the current snapshot (or it has none there), and a path of
  the current snapshot is marked \<open>move\<close> exactly when the target has no record of it.
\<close>

theorem compare_versions_last_digest:
  "\<exists>plan. compare_versions (snapshot target) (snapshot current) = Inr plan
     \<and> distinct plan
     \<and> set plan =
         {plan_entry p ''copy'' | p.
            p \<in> fst ` set target \<and> map_of (rev current) p \<noteq> map_of (rev target) p}
         \<union> {plan_entry p ''move'' | p. p \<in> fst ` set current \<and> p \<notin> fst ` set target}"
proof -
  obtain t where t: "files_dict (snapshot target) [] = Inr t" and dt: "distinct (map fst t)"
    and mt: "map_of t = map_of (rev target)" and kt: "fst ` set t = fst ` set target"
    using files_dict_snapshot_last_wins by blast
  obtain c where c: "files_dict (snapshot current) [] = Inr c" and dc: "distinct (map fst c)"
    and mc: "map_of c = map_of (rev current)" and kc: "fst ` set c = fst ` set current"
    using files_dict_snapshot_last_wins by blast
  let ?P = "\<lambda>(filename, hash_value).
      \<not> dict_contains c filename \<or> map_of c filename \<noteq> Some hash_value"
  let ?Q = "\<lambda>(filename, hash_value :: string). \<not> dict_contains t filename"
  let ?copies = "map (\<lambda>(filename, hash_value). plan_entry filename ''copy'') (filter ?P t)"
  let ?moves = "map (\<lambda>(filename, hash_value). plan_entry filename ''move'') (filter ?Q c)"
  have eq: "compare_versions (snapshot target) (snapshot current) = Inr (?copies @ ?moves)"
    by (simp add: compare_versions_def t c)
  have "set ?copies \<inter> set ?moves = {}"
    by (auto simp: plan_entry_eq_iff)
  then have dist: "distinct (?copies @ ?moves)"
    using distinct_map_plan_entry [OF dt] distinct_map_plan_entry [OF dc] by simp
  have int: "(k, v) \<in> set t \<longleftrightarrow> map_of t k = Some v" for k v
    using dt by simp
  have copies: "set ?copies = {plan_entry p ''copy'' | p.
            p \<in> fst ` set target \<and> map_of (rev current) p \<noteq> map_of (rev target) p}"
  proof (intro set_eqI iffI)
    fix e assume "e \<in> set ?copies"
    then obtain k v where kv: "(k, v) \<in> set t" "?P (k, v)" and e: "e = plan_entry k ''copy''"
      by auto
    have "map_of t k = Some v" using kv(1) int by simp
    moreover have "map_of c k \<noteq> Some v"
      using kv(2) by (auto simp: dict_contains_def)
    moreover have "k \<in> fst ` set target" using kv(1) kt by force
    ultimately show "e \<in> {plan_entry p ''copy'' | p.
            p \<in> fst ` set target \<and> map_of (rev current) p \<noteq> map_of (rev target) p}"
      using e mt mc by auto
  next
    fix e assume "e \<in> {plan_entry p ''copy'' | p.
            p \<in> fst ` set target \<and> map_of (rev current) p \<noteq> map_of (rev target) p}"
    then obtain p where e: "e = plan_entry p ''copy''" and p: "p \<in> fst ` set target"
      and ne: "map_of c p \<noteq> map_of t p"
      using mt mc by auto
    from p kt obtain v where v: "(p, v) \<in> set t" by force
    then have "map_of t p = Some v" using int by simp
    with ne have "?P (p, v)" by (auto simp: dict_contains_def)
    with v e show "e \<in> set ?copies" by force
  qed
  have inT: "dict_contains t p \<longleftrightarrow> p \<in> fst ` set target" for p
    using kt by (simp add: dict_contains_def map_of_eq_None_iff)
  have moves: "set ?moves =
      {plan_entry p ''move'' | p. p \<in> fst ` set current \<and> p \<notin> fst ` set target}"
  proof (intro set_eqI iffI)
    fix e assume "e \<in> set ?moves"
    then obtain k v where kv: "(k, v) \<in> set c" "\<not> dict_contains t k"
      and e: "e = plan_entry k ''move''"
      by auto
    have "k \<in> fst ` set current" using kv(1) kc by force
    with kv(2) e show "e \<in> {plan_entry p ''move'' | p.
        p \<in> fst ` set current \<and> p \<notin> fst ` set target}"
      by (auto simp: inT)
  next
    fix e assume "e \<in> {plan_entry p ''move'' | p.
        p \<in> fst ` set current \<and> p \<notin> fst ` set target}"
    then obtain p where e: "e = plan_entry p ''move''" and p: "p \<in> fst ` set current"
      and n: "p \<notin> fst ` set target"
      by auto
    from p kc obtain v where v: "(p, v) \<in> set c" by force
    with n e show "e \<in> set ?moves" by (force simp: inT)
  qed
  show ?thesis using eq dist copies moves by (metis set_append)
qed

theorem compare_versions_last_digest_witness:
  "\<exists>plan. compare_versions (snapshot [(''a.txt'', ''D1''), (''a.txt'', ''D2'')])
             (snapshot [(''a.txt'', ''D1'')]) = Inr plan
     \<and> plan_entry ''a.txt'' ''copy'' \<in> set plan"
proof -
  from compare_versions_last_digest [of "[(''a.txt'', ''D1''), (''a.txt'', ''D2'')]"
      "[(''a.txt'', ''D1'')]"]
  obtain plan where p: "compare_versions (snapshot [(''a.txt'', ''D1''), (''a.txt'', ''D2'')])
             (snapshot [(''a.txt'', ''D1'')]) = Inr plan"
    and s: "set plan =
         {plan_entry p ''copy'' | p.
            p \<in> fst ` set [(''a.txt'', ''D1''), (''a.txt'', ''D2'')]
            \<and> map_of (rev [(''a.txt'', ''D1'')]) p
                \<noteq> map_of (rev [(''a.txt'', ''D1''), (''a.txt'', ''D2'')]) p}
         \<union> {plan_entry p ''move'' | p. p \<in> fst ` set [(''a.txt'', ''D1'')]
            \<and> p \<notin> fst ` set [(''a.txt'', ''D1''), (''a.txt'', ''D2'')]}"
    by blast
  have "plan_entry ''a.txt'' ''copy'' \<in> set plan"
    unfolding s by simp
  with p show ?thesis by blast
qed

subsection \<open>Evaluating the operations on concrete inputs\<close>

lemmas path_defs = join_def dirname_def basename_def path_split_def makedirs_split_def
  rstrip_sep_def os_sep_def str_replace_def under_def normpath_def

lemmas fs_defs = exists_def isdir_def mkdir_def mkdir_exist_ok_def open_write_def
  zipfile_read_def extract_member_def move_to_def shutil_move_def rename_dir_def
  regular_def parent_def stat_path_def zip_arcname_def entry_name_def
  extract_arcname_def extract_target_def

subsection \<open>Scanning\<close>

lemma scan_files_map_filter:
  "scan_files md5 read_file folder root files file_data =
     file_data @ List.map_filter (scanned_record md5 read_file folder) (map (join root) files)"
proof (induction files arbitrary: file_data)
  case Nil
  then show ?case by (simp add: List.map_filter_simps)
next
  case (Cons f files)
  show ?case
    by (cases "read_file (join root f)")
      (simp_all add: Cons.IH List.map_filter_simps scanned_record_def)
qed

lemma map_filter_append:
  "List.map_filter g (xs @ ys) = List.map_filter g xs @ List.map_filter g ys"
  by (simp add: List.map_filter_def)

lemma scan_walk_map_filter:
  "scan_walk md5 read_file folder w file_data =
     file_data @ List.map_filter (scanned_record md5 read_file folder) (walked_files w)"
proof (induction w arbitrary: file_data)
  case Nil
  then show ?case by (simp add: walked_files_def List.map_filter_simps)
next
  case (Cons x w)
  obtain root dirs files where x: "x = (root, dirs, files)" by (cases x)
  have "walked_files (x # w) = map (join root) files @ walked_files w"
    by (simp add: walked_files_def x)
  then show ?case
    by (simp add: x Cons.IH scan_files_map_filter map_filter_append)
qed

text \<open>
  Claim C8. A scan of an existing folder returns a snapshot even when reading some file
  fails: the snapshot holds, in the order of the walk, the records of exactly the files
  that could be read, so one unreadable file costs its own record and no other.
\<close>

theorem scan_folder_isolates_failures:
  assumes "folder \<noteq> []" and "path_exists folder"
  shows "\<exists>s. scan_folder md5 read_file path_exists os_walk (Some folder) = Inr s
    \<and> s = List.map_filter (scanned_record md5 read_file folder) (walked_files (os_walk folder))
    \<and> (\<forall>file_path contents.
          file_path \<in> set (walked_files (os_walk folder)) \<and> read_file file_path = Inr contents
          \<longrightarrow> file_record (str_replace os_sep CHR ''/'' (relpath file_path folder)) (md5 contents)
                \<in> set s)"
proof -
  let ?s = "List.map_filter (scanned_record md5 read_file folder) (walked_files (os_walk folder))"
  have eq: "scan_folder md5 read_file path_exists os_walk (Some folder) = Inr ?s"
    using assms by (simp add: scan_folder_def scan_walk_map_filter)
  have "file_record (str_replace os_sep CHR ''/'' (relpath file_path folder)) (md5 contents)
          \<in> set ?s"
    if "file_path \<in> set (walked_files (os_walk folder))" and "read_file file_path = Inr contents"
    for file_path contents
  proof -
    have "scanned_record md5 read_file folder file_path =
        Some (file_record (str_replace os_sep CHR ''/'' (relpath file_path folder)) (md5 contents))"
      using that(2) by (simp add: scanned_record_def)
    with that(1) show ?thesis
      by (force simp: List.map_filter_def)
  qed
  with eq show ?thesis by blast
qed

theorem scan_folder_isolates_failures_witness:
  "''t'' \<noteq> [] \<and> (\<lambda>p. True) ''t''
   \<and> (\<lambda>p. if p = ''t/b'' then Inl (FileNotFoundError p) else Inr p) ''t/b''
        = Inl (FileNotFoundError ''t/b'')
   \<and> scan_folder (\<lambda>b. b) (\<lambda>p. if p = ''t/b'' then Inl (FileNotFoundError p) else Inr p)
        (\<lambda>p. True) (\<lambda>p. [(p, [''d''], [''a'', ''b'']), (''t/d'', [], [''c''])]) (Some ''t'')
      = Inr [file_record ''a'' ''t/a'', file_record ''d/c'' ''t/d/c'']"
proof -
  have h1: "''t'' \<noteq> []" by simp
  have h2: "(\<lambda>p. True) ''t''" by simp
  from scan_folder_isolates_failures [of "''t''" "\<lambda>p. True" "\<lambda>b. b"
      "\<lambda>p. if p = ''t/b'' then Inl (FileNotFoundError p) else Inr p"
      "\<lambda>p. [(p, [''d''], [''a'', ''b'']), (''t/d'', [], [''c''])]", OF h1 h2]
  show ?thesis
    by (simp add: walked_files_def List.map_filter_simps scanned_record_def join_def
        relpath_def str_replace_def os_sep_def)
qed

subsection \<open>Packaging\<close>

lemma files_to_zip_subset:
  "files_to_zip convert_data = Inr fz \<Longrightarrow>
   set fz \<subseteq> {item \<in> set convert_data. item ''status'' = Some ''copy''}"
proof (induction convert_data arbitrary: fz)
  case Nil
  then show ?case by simp
next
  case (Cons item items)
  then show ?case
    by (auto simp: getitem_def split: option.splits sum.splits if_splits)
qed

lemma zip_members_from:
  "zip_members items to_folder fs members = (eo, ms) \<Longrightarrow> m \<in> set ms \<Longrightarrow>
   m \<in> set members
   \<or> (\<exists>item \<in> set items. \<exists>n. item ''filename'' = Some n \<and> fst m = zip_arcname n
         \<and> stat_path fs (join to_folder (str_replace CHR ''/'' os_sep n)) = Some (snd m))"
proof (induction items arbitrary: members)
  case Nil
  then show ?case by auto
next
  case (Cons item items)
  show ?case
  proof (cases "item ''filename''")
    case None
    with Cons.prems show ?thesis by (auto simp: getitem_def)
  next
    case (Some n)
    let ?fp = "join to_folder (str_replace CHR ''/'' os_sep n)"
    show ?thesis
    proof (cases "stat_path fs ?fp")
      case None
      with Cons.prems Some
      have "zip_members items to_folder fs members = (eo, ms)"
        by (simp add: getitem_def)
      from Cons.IH [OF this Cons.prems(2)] show ?thesis by auto
    next
      case found: (Some content)
      show ?thesis
      proof (cases "zip_arcname n = []")
        case True
        with Cons.prems Some found show ?thesis by (auto simp: getitem_def)
      next
        case False
        with Cons.prems Some found
        have "zip_members items to_folder fs (members @ [(zip_arcname n, content)]) = (eo, ms)"
          by (simp add: getitem_def)
        from Cons.IH [OF this Cons.prems(2)] Some found show ?thesis by auto
      qed
    qed
  qed
qed

text \<open>
  Claim C5 reads: no entry of the archive has a path outside the set of paths the plan
  marks \<open>copy\<close>. The archive lists a member under the name \<open>zipfile\<close> makes of the
  plan's path, not under the path as the plan writes it: for the plan paths \<open>./a.txt\<close>
  and \<open>d\<close>, a directory of the target, the entries are \<open>a.txt\<close> and \<open>d/\<close>, and neither
  is a path of the plan.
\<close>

theorem create_zip_name_counterexample:
  "fst (create_zip [plan_entry ''./a.txt'' ''copy'', plan_entry ''d'' ''copy''] ''t''
          [''t'' \<mapsto> Dir, ''t/a.txt'' \<mapsto> File ''A'', ''t/d'' \<mapsto> Dir])
     = Inr (ZipResult (Some ''version_update.zip'') None)
   \<and> snd (create_zip [plan_entry ''./a.txt'' ''copy'', plan_entry ''d'' ''copy''] ''t''
          [''t'' \<mapsto> Dir, ''t/a.txt'' \<mapsto> File ''A'', ''t/d'' \<mapsto> Dir]) ''version_update.zip''
     = Some (ZipArchive [(''a.txt'', File ''A''), (''d'', Dir)])
   \<and> map entry_name [(''a.txt'', File ''A''), (''d'', Dir)] = [''a.txt'', ''d/'']
   \<and> ''a.txt'' \<notin> copy_names [plan_entry ''./a.txt'' ''copy'', plan_entry ''d'' ''copy'']
   \<and> ''d/'' \<notin> copy_names [plan_entry ''./a.txt'' ''copy'', plan_entry ''d'' ''copy'']"
proof -
  have names: "copy_names [plan_entry ''./a.txt'' ''copy'', plan_entry ''d'' ''copy'']
      = {''./a.txt'', ''d''}"
    by (auto simp: copy_names_def plan_entry_def)
  have run: "create_zip [plan_entry ''./a.txt'' ''copy'', plan_entry ''d'' ''copy''] ''t''
          [''t'' \<mapsto> Dir, ''t/a.txt'' \<mapsto> File ''A'', ''t/d'' \<mapsto> Dir]
     = (Inr (ZipResult (Some ''version_update.zip'') None),
        [''t'' \<mapsto> Dir, ''t/a.txt'' \<mapsto> File ''A'', ''t/d'' \<mapsto> Dir,
         ''version_update.zip'' \<mapsto> ZipArchive [(''a.txt'', File ''A''), (''d'', Dir)]])"
    by (simp add: create_zip_def Let_def plan_entry_def getitem_def path_defs fs_defs)
  show ?thesis
    by (simp add: run names entry_name_def os_sep_def)
qed

text \<open>
  Claim C5, amended. When \<open>create_zip\<close> returns the path of an archive, the file at that
  path is an archive each of whose members comes from a \<open>copy\<close> entry of the plan: its
  name is the name \<open>zipfile\<close> makes of that entry's path (normalised, leading
  separators removed; listed with a final separator for a directory), and the file
  system finds a file or directory at that path, joined to the target folder, a
  directory exactly when the member is a directory entry. So no \<open>move\<close> entry and no
  file the plan does not name is written. When the \<open>copy\<close> paths of the plan are
  their own archive names (normalised relative paths, as \<open>scan_folder\<close> emits them),
  every member name is a \<open>copy\<close> path of the plan, and so is the listed name of every
  member that is not a directory.
\<close>

theorem create_zip_entries:
  assumes "create_zip convert_data to_folder fs = (Inr r, fs')"
    and "result_zip_path r = Some zp"
  shows "\<exists>members. fs' zp = Some (ZipArchive members)
     \<and> (\<forall>m \<in> set members. \<exists>n \<in> copy_names convert_data.
            fst m = zip_arcname n
            \<and> stat_path (fs(zp \<mapsto> File []))
                  (join to_folder (str_replace CHR ''/'' os_sep n)) \<noteq> None
            \<and> (snd m = Dir) =
                (stat_path (fs(zp \<mapsto> File []))
                   (join to_folder (str_replace CHR ''/'' os_sep n)) = Some Dir))
     \<and> ((\<forall>n \<in> copy_names convert_data. zip_arcname n = n)
          \<longrightarrow> (\<forall>m \<in> set members. fst m \<in> copy_names convert_data
                 \<and> (snd m \<noteq> Dir \<longrightarrow> entry_name m \<in> copy_names convert_data)))"
proof -
  obtain fz where fz: "files_to_zip convert_data = Inr fz"
    using assms(1) by (cases "files_to_zip convert_data") (auto simp: create_zip_def)
  have ne: "fz \<noteq> []"
    using assms fz by (auto simp: create_zip_def)
  let ?zp = "join (dirname to_folder) ''version_update.zip''"
  obtain fs1 where fs1: "open_write ?zp (File []) fs = (Inr (), fs1)"
    using assms(1) fz ne
    by (cases fz; cases "open_write ?zp (File []) fs")
      (auto simp: create_zip_def Let_def split: sum.splits)
  then have fs1_eq: "fs1 = fs(?zp \<mapsto> File [])"
    by (auto simp: open_write_def split: if_splits)
  obtain eo ms where zm: "zip_members fz to_folder fs1 [] = (eo, ms)"
    by (cases "zip_members fz to_folder fs1 []")
  have res: "eo = None \<and> r = ZipResult (Some ?zp) None \<and> fs' = fs1(?zp \<mapsto> ZipArchive ms)"
    using assms(1) fz ne fs1 zm
    by (cases fz; cases eo) (auto simp: create_zip_def Let_def)
  then have zp: "zp = ?zp" using assms(2) by simp
  then have at: "fs' zp = Some (ZipArchive ms)" using res by simp
  have from_copy: "\<exists>n \<in> copy_names convert_data. fst m = zip_arcname n
      \<and> stat_path (fs(zp \<mapsto> File [])) (join to_folder (str_replace CHR ''/'' os_sep n))
          \<noteq> None
      \<and> (snd m = Dir) =
          (stat_path (fs(zp \<mapsto> File [])) (join to_folder (str_replace CHR ''/'' os_sep n))
             = Some Dir)"
    if m: "m \<in> set ms" for m
  proof -
    from zip_members_from [OF zm m] obtain item n where
      i: "item \<in> set fz" "item ''filename'' = Some n" "fst m = zip_arcname n"
        "stat_path fs1 (join to_folder (str_replace CHR ''/'' os_sep n)) = Some (snd m)"
      by auto
    have "item \<in> set convert_data" "item ''status'' = Some ''copy''"
      using files_to_zip_subset [OF fz] i(1) by auto
    then have "n \<in> copy_names convert_data"
      using i(2) by (auto simp: copy_names_def)
    moreover have "stat_path (fs(zp \<mapsto> File []))
        (join to_folder (str_replace CHR ''/'' os_sep n)) = Some (snd m)"
      using i(4) unfolding fs1_eq zp .
    ultimately show ?thesis using i(3) by auto
  qed
  have literal: "fst m \<in> copy_names convert_data
      \<and> (snd m \<noteq> Dir \<longrightarrow> entry_name m \<in> copy_names convert_data)"
    if clean: "\<forall>n \<in> copy_names convert_data. zip_arcname n = n" and m: "m \<in> set ms" for m
  proof -
    from from_copy [OF m] obtain n where "n \<in> copy_names convert_data" "fst m = zip_arcname n"
      by blast
    with clean have "fst m \<in> copy_names convert_data" by simp
    then show ?thesis by (simp add: entry_name_def)
  qed
  from at from_copy literal show ?thesis by blast
qed

theorem create_zip_entries_witness:
  "fst (create_zip [plan_entry ''a.txt'' ''copy'', plan_entry ''b.txt'' ''move''] ''t''
          [''t'' \<mapsto> Dir, ''t/a.txt'' \<mapsto> File ''A'', ''t/b.txt'' \<mapsto> File ''B''])
     = Inr (ZipResult (Some ''version_update.zip'') None)
   \<and> copy_names [plan_entry ''a.txt'' ''copy'', plan_entry ''b.txt'' ''move''] = {''a.txt''}
   \<and> zip_arcname ''a.txt'' = ''a.txt''
   \<and> (\<exists>members.
         snd (create_zip [plan_entry ''a.txt'' ''copy'', plan_entry ''b.txt'' ''move''] ''t''
               [''t'' \<mapsto> Dir, ''t/a.txt'' \<mapsto> File ''A'', ''t/b.txt'' \<mapsto> File ''B''])
           ''version_update.zip'' = Some (ZipArchive members)
         \<and> fst ` set members
             \<subseteq> copy_names [plan_entry ''a.txt'' ''copy'', plan_entry ''b.txt'' ''move''])"
proof -
  let ?plan = "[plan_entry ''a.txt'' ''copy'', plan_entry ''b.txt'' ''move'']"
  let ?run = "create_zip ?plan ''t''
          [''t'' \<mapsto> Dir, ''t/a.txt'' \<mapsto> File ''A'', ''t/b.txt'' \<mapsto> File ''B'']"
  have f: "fst ?run = Inr (ZipResult (Some ''version_update.zip'') None)"
    by (simp add: create_zip_def Let_def plan_entry_def getitem_def path_defs fs_defs)
  then have h1: "?run = (Inr (ZipResult (Some ''version_update.zip'') None), snd ?run)"
    by (cases ?run) simp
  have h2: "result_zip_path (ZipResult (Some ''version_update.zip'') None)
      = Some ''version_update.zip''"
    by simp
  have names: "copy_names ?plan = {''a.txt''}"
    by (auto simp: copy_names_def plan_entry_def)
  have arc: "zip_arcname ''a.txt'' = ''a.txt''"
    by (simp add: path_defs fs_defs)
  have clean: "\<forall>n \<in> copy_names ?plan. zip_arcname n = n"
    by (simp add: names arc)
  from create_zip_entries [OF h1 h2] clean obtain members where
    "snd ?run ''version_update.zip'' = Some (ZipArchive members)"
    "\<forall>m \<in> set members. fst m \<in> copy_names ?plan"
    by blast
  then have "\<exists>members. snd ?run ''version_update.zip'' = Some (ZipArchive members)
      \<and> fst ` set members \<subseteq> copy_names ?plan"
    by auto
  with f names arc show ?thesis by blast
qed

text \<open>Whatever the outcome, \<open>create_zip\<close> changes the file system at no path but that of the archive.\<close>

lemma create_zip_frame:
  "p \<noteq> join (dirname to_folder) ''version_update.zip'' \<Longrightarrow>
   snd (create_zip convert_data to_folder fs) p = fs p"
  by (auto simp: create_zip_def Let_def open_write_def
      split: sum.splits list.splits prod.splits option.splits if_splits)

subsection \<open>What creating directories and moving a file change\<close>





lemma shutil_move_file:
  assumes "fs src = Some (File b)" and "shutil_move src dst fs = (Inr u, fs')"
    and "\<not> isdir fs dst"
  shows "fs' dst = Some (File b) \<and> (src \<noteq> dst \<longrightarrow> fs' src = None)
    \<and> (\<forall>p. p \<noteq> src \<and> p \<noteq> dst \<longrightarrow> fs' p = fs p)"
  using assms by (auto simp: shutil_move_def move_to_def split: if_splits)

subsection \<open>Equalizing\<close>













lemma files_to_zip_moves:
  "files_to_zip (map (\<lambda>name. plan_entry name ''move'') names) = Inr []"
  by (induction names) (simp_all add: getitem_def plan_entry_def)

lemma split_join:
  assumes "a \<noteq> []" and "last a \<noteq> os_sep" and "os_sep \<notin> set b"
  shows "path_split (join a b) = (a, b)"
proof -
  have j: "join a b = a @ os_sep # b"
    using assms by (cases b) (auto simp: join_def)
  have nb: "x \<in> set (rev b) \<Longrightarrow> x \<noteq> os_sep" for x
    using assms(3) by auto
  have tw: "takeWhile (\<lambda>c. c \<noteq> os_sep) (rev b @ os_sep # rev a) = rev b"
    using takeWhile_append2 [of "rev b" "\<lambda>c. c \<noteq> os_sep" "os_sep # rev a"] nb by simp
  have dw: "dropWhile (\<lambda>c. c \<noteq> os_sep) (rev b @ os_sep # rev a) = os_sep # rev a"
    using dropWhile_append2 [of "rev b" "\<lambda>c. c \<noteq> os_sep" "os_sep # rev a"] nb by simp
  have nz: "a @ [os_sep] \<noteq> replicate (Suc (length a)) os_sep"
  proof
    assume "a @ [os_sep] = replicate (Suc (length a)) os_sep"
    then have "set (a @ [os_sep]) \<subseteq> {os_sep}" by (metis set_replicate_conv_if subset_iff empty_iff order_refl)
    with assms(1,2) show False by (cases a rule: rev_cases) auto
  qed
  have "hd (rev a) \<noteq> os_sep" using assms(1,2) by (simp add: hd_rev)
  then have st: "dropWhile (\<lambda>c. c = os_sep) (rev a) = rev a"
    using assms(1) by (cases "rev a") auto
  show ?thesis
    using nz by (simp add: j path_split_def Let_def tw dw rstrip_sep_def st)
qed

text \<open>
  Claim C9 reads: for identical trees the plan is empty, \<open>create_zip\<close> reports that there
  is nothing to package, and \<open>equalize_versions\<close> is a no-op that produces no quarantine
  directory. The first two hold; but \<open>equalize_versions\<close> makes the directory before it
  looks at the plan: with the empty plan of two identical trees and an archive without
  members it completes, and the directory \<open>ExtraFiles_VersionEqualizer\<close>, absent before,
  is there afterwards.
\<close>

theorem identical_trees_counterexample:
  "compare_versions (snapshot [(''a.txt'', ''D1'')]) (snapshot [(''a.txt'', ''D1'')]) = Inr []
   \<and> \<not> exists [''c'' \<mapsto> Dir, ''c/a.txt'' \<mapsto> File ''A'', ''u.zip'' \<mapsto> ZipArchive []]
          ''c/ExtraFiles_VersionEqualizer''
   \<and> fst (equalize_versions [] ''c'' (Some ''u.zip'')
          [''c'' \<mapsto> Dir, ''c/a.txt'' \<mapsto> File ''A'', ''u.zip'' \<mapsto> ZipArchive []]) = Inr []
   \<and> isdir (snd (equalize_versions [] ''c'' (Some ''u.zip'')
          [''c'' \<mapsto> Dir, ''c/a.txt'' \<mapsto> File ''A'', ''u.zip'' \<mapsto> ZipArchive []]))
          ''c/ExtraFiles_VersionEqualizer''"
proof -
  have "compare_versions (snapshot [(''a.txt'', ''D1'')]) (snapshot [(''a.txt'', ''D1'')]) = Inr []"
    by (rule compare_versions_same)
  then show ?thesis
    by (simp add: equalize_versions_def makedirs.simps path_defs fs_defs)
qed

text \<open>
  Claim C9, amended. For identical trees the plan is empty; \<open>create_zip\<close> on a plan
  without \<open>copy\<close> entries (the empty plan among them) writes nothing and returns no
  archive path but the message \<open>No files to zip\<close>;
  \<open>equalize_versions\<close> on the empty plan fails without touching anything when it has no
  archive, and with an archive without members it moves nothing and changes no file,
  but it does create the quarantine directory \<open>ExtraFiles_VersionEqualizer\<close> in the
  current folder when that directory is not there.
\<close>

theorem identical_trees_scenario:
  "compare_versions (snapshot recs) (snapshot recs) = Inr []
   \<and> create_zip (map (\<lambda>name. plan_entry name ''move'') names) to_folder fs
       = (Inr (ZipResult None (Some ''No files to zip'')), fs)
   \<and> equalize_versions [] from_folder None fs = (Inl AttributeError, fs)
   \<and> (from_folder \<noteq> [] \<and> last from_folder \<noteq> os_sep \<and> isdir fs from_folder
        \<and> fs zp = Some (ZipArchive [])
        \<and> \<not> exists fs (join from_folder ''ExtraFiles_VersionEqualizer'')
      \<longrightarrow> equalize_versions [] from_folder (Some zp) fs
            = (Inr [], fs(join from_folder ''ExtraFiles_VersionEqualizer'' \<mapsto> Dir)))"
proof -
  let ?q = "join from_folder ''ExtraFiles_VersionEqualizer''"
  have c: "create_zip (map (\<lambda>name. plan_entry name ''move'') names) to_folder fs
      = (Inr (ZipResult None (Some ''No files to zip'')), fs)"
    by (simp add: create_zip_def files_to_zip_moves)
  have n: "equalize_versions [] from_folder None fs = (Inl AttributeError, fs)"
    by (simp add: equalize_versions_def zipfile_read_def)
  have e: "equalize_versions [] from_folder (Some zp) fs = (Inr [], fs(?q \<mapsto> Dir))"
    if h: "from_folder \<noteq> []" "last from_folder \<noteq> os_sep" "isdir fs from_folder"
      "fs zp = Some (ZipArchive [])" "\<not> exists fs ?q"
  proof -
    have sp: "path_split ?q = (from_folder, ''ExtraFiles_VersionEqualizer'')"
      using h(1,2) by (intro split_join) (simp_all add: os_sep_def)
    have qne: "?q \<noteq> []" using h(1) by (auto simp: join_def)
    have ex: "exists fs from_folder" using h(3) by (simp add: exists_def isdir_def)
    have mk: "makedirs ?q fs = (Inr (), fs(?q \<mapsto> Dir))"
      using h(1,3,5) ex qne
      by (subst makedirs.simps)
        (simp add: makedirs_split_def dirname_def sp mkdir_exist_ok_def mkdir_def)
    show ?thesis
      using h(4) mk by (simp add: equalize_versions_def zipfile_read_def)
  qed
  from compare_versions_same c n e show ?thesis by blast
qed

theorem identical_trees_scenario_witness:
  "''c'' \<noteq> [] \<and> last ''c'' \<noteq> os_sep
   \<and> isdir [''c'' \<mapsto> Dir, ''u.zip'' \<mapsto> ZipArchive []] ''c''
   \<and> [''c'' \<mapsto> Dir, ''u.zip'' \<mapsto> ZipArchive []] ''u.zip'' = Some (ZipArchive [])
   \<and> \<not> exists [''c'' \<mapsto> Dir, ''u.zip'' \<mapsto> ZipArchive []]
         (join ''c'' ''ExtraFiles_VersionEqualizer'')
   \<and> equalize_versions [] ''c'' (Some ''u.zip'') [''c'' \<mapsto> Dir, ''u.zip'' \<mapsto> ZipArchive []]
       = (Inr [], [''c'' \<mapsto> Dir, ''u.zip'' \<mapsto> ZipArchive [],
                   join ''c'' ''ExtraFiles_VersionEqualizer'' \<mapsto> Dir])"
proof -
  have h: "''c'' \<noteq> [] \<and> last ''c'' \<noteq> os_sep
     \<and> isdir [''c'' \<mapsto> Dir, ''u.zip'' \<mapsto> ZipArchive []] ''c''
     \<and> [''c'' \<mapsto> Dir, ''u.zip'' \<mapsto> ZipArchive []] ''u.zip'' = Some (ZipArchive [])
     \<and> \<not> exists [''c'' \<mapsto> Dir, ''u.zip'' \<mapsto> ZipArchive []]
           (join ''c'' ''ExtraFiles_VersionEqualizer'')"
    by (simp add: path_defs fs_defs)
  from identical_trees_scenario [of "[]" "[]" "''t''"
      "[''c'' \<mapsto> Dir, ''u.zip'' \<mapsto> ZipArchive []]" "''c''" "''u.zip''"] h
  show ?thesis by blast
qed

subsection \<open>The scenario of the specification\<close>

text \<open>
  The target holds \<open>a.txt\<close>; the current folder holds another \<open>a.txt\<close> and an extra
  \<open>b.txt\<close>. The plan marks \<open>a.txt\<close> as \<open>copy\<close> and \<open>b.txt\<close> as \<open>move\<close>, the archive
  holds \<open>a.txt\<close> alone, and equalizing replaces \<open>a.txt\<close> and moves \<open>b.txt\<close> below
  \<open>ExtraFiles_VersionEqualizer\<close>.
\<close>

lemma scenario_plan:
  "compare_versions (snapshot [(''a.txt'', ''D1'')])
       (snapshot [(''a.txt'', ''D2''), (''b.txt'', ''D3'')])
     = Inr [plan_entry ''a.txt'' ''copy'', plan_entry ''b.txt'' ''move'']"
  by (simp add: compare_versions_def snapshot_def file_record_def getitem_def dict_contains_def)

lemma scenario_archive:
  "create_zip [plan_entry ''a.txt'' ''copy'', plan_entry ''b.txt'' ''move''] ''t''
       [''t'' \<mapsto> Dir, ''t/a.txt'' \<mapsto> File ''target'']
     = (Inr (ZipResult (Some ''version_update.zip'') None),
        [''t'' \<mapsto> Dir, ''t/a.txt'' \<mapsto> File ''target'',
         ''version_update.zip'' \<mapsto> ZipArchive [(''a.txt'', File ''target'')]])"
  by (simp add: create_zip_def Let_def plan_entry_def getitem_def path_defs fs_defs)

lemma scenario_equalized:
  "equalize_versions [plan_entry ''a.txt'' ''copy'', plan_entry ''b.txt'' ''move''] ''c''
       (Some ''version_update.zip'')
       [''c'' \<mapsto> Dir, ''c/a.txt'' \<mapsto> File ''current'', ''c/b.txt'' \<mapsto> File ''extra'',
        ''version_update.zip'' \<mapsto> ZipArchive [(''a.txt'', File ''target'')]]
     = (Inr [''b.txt''],
        [''c'' \<mapsto> Dir, ''c/a.txt'' \<mapsto> File ''target'',
         ''c/ExtraFiles_VersionEqualizer'' \<mapsto> Dir,
         ''c/ExtraFiles_VersionEqualizer/b.txt'' \<mapsto> File ''extra'',
         ''version_update.zip'' \<mapsto> ZipArchive [(''a.txt'', File ''target'')]])"
  by (simp add: equalize_versions_def makedirs.simps plan_entry_def getitem_def
      path_defs fs_defs fun_eq_iff)

subsection \<open>Files that collide with the quarantine\<close>

lemma requarantine_plan_compared:
  "compare_versions (snapshot [(''b.txt'', ''hB'')])
       (snapshot [(''a.txt'', ''hNew''), (''ExtraFiles_VersionEqualizer/a.txt'', ''hOld'')])
     = Inr requarantine_plan"
  by (simp add: compare_versions_def snapshot_def file_record_def getitem_def dict_contains_def
      requarantine_plan_def)

lemma requarantine_run:
  "equalize_versions requarantine_plan ''c'' (Some ''u.zip'') requarantine_tree
     = (Inr [''a.txt'', ''ExtraFiles_VersionEqualizer/a.txt''],
        [''c'' \<mapsto> Dir,
         ''c/ExtraFiles_VersionEqualizer'' \<mapsto> Dir,
         ''u.zip'' \<mapsto> ZipArchive [(''b.txt'', File ''B'')],
         ''c/b.txt'' \<mapsto> File ''B'',
         ''c/ExtraFiles_VersionEqualizer/ExtraFiles_VersionEqualizer'' \<mapsto> Dir,
         ''c/ExtraFiles_VersionEqualizer/ExtraFiles_VersionEqualizer/a.txt'' \<mapsto> File ''new''])"
  by (simp add: requarantine_plan_def requarantine_tree_def equalize_versions_def makedirs.simps
      plan_entry_def getitem_def path_defs fs_defs fun_eq_iff)

text \<open>
  Claim C2 reads: after \<open>equalize_versions\<close> every file that was at a path marked
  \<open>move\<close> is found unchanged under \<open>ExtraFiles_VersionEqualizer\<close> at its relative path,
  and no file is lost. It fails on a tree that was equalized before. The current folder
  \<open>c\<close> holds \<open>a.txt\<close> (bytes \<open>new\<close>) and, from an earlier run, the quarantined
  \<open>ExtraFiles_VersionEqualizer/a.txt\<close> (bytes \<open>old\<close>); the target holds only \<open>b.txt\<close>. The
  comparison of their snapshots marks both files of \<open>c\<close> as \<open>move\<close>, in the order of the
  scan. Moving \<open>a.txt\<close> replaces the quarantined file, which is then moved one level
  down: afterwards no file is at \<open>ExtraFiles_VersionEqualizer/a.txt\<close>, the bytes \<open>new\<close> are
  where the bytes \<open>old\<close> should be, and the bytes \<open>old\<close> are nowhere.
\<close>

theorem equalize_versions_overwrites_quarantined_file:
  "requarantine_tree ''c/a.txt'' = Some (File ''new'')
   \<and> requarantine_tree ''c/ExtraFiles_VersionEqualizer/a.txt'' = Some (File ''old'')
   \<and> fst (equalize_versions requarantine_plan ''c'' (Some ''u.zip'') requarantine_tree)
       = Inr [''a.txt'', ''ExtraFiles_VersionEqualizer/a.txt'']
   \<and> snd (equalize_versions requarantine_plan ''c'' (Some ''u.zip'') requarantine_tree)
         ''c/ExtraFiles_VersionEqualizer/a.txt'' = None
   \<and> snd (equalize_versions requarantine_plan ''c'' (Some ''u.zip'') requarantine_tree)
         ''c/ExtraFiles_VersionEqualizer/ExtraFiles_VersionEqualizer/a.txt'' = Some (File ''new'')
   \<and> (\<forall>p. snd (equalize_versions requarantine_plan ''c'' (Some ''u.zip'') requarantine_tree) p
         \<noteq> Some (File ''old''))"
proof -
  have before: "requarantine_tree ''c/a.txt'' = Some (File ''new'')
      \<and> requarantine_tree ''c/ExtraFiles_VersionEqualizer/a.txt'' = Some (File ''old'')"
    by (simp add: requarantine_tree_def)
  have after: "snd (equalize_versions requarantine_plan ''c'' (Some ''u.zip'') requarantine_tree) p
      \<noteq> Some (File ''old'')" for p
    by (simp add: requarantine_run)
  from before after show ?thesis
    by (simp add: requarantine_run)
qed

lemma nested_plan_compared:
  "compare_versions (snapshot [(''ExtraFiles_VersionEqualizer/q.txt'', ''hA'')])
       (snapshot [(''q.txt'', ''hQ'')])
     = Inr nested_plan"
  by (simp add: compare_versions_def snapshot_def file_record_def getitem_def dict_contains_def
      nested_plan_def)

lemma nested_archive_packed:
  "create_zip nested_plan ''t'' nested_target
     = (Inr (ZipResult (Some ''version_update.zip'') None),
        nested_target(''version_update.zip'' \<mapsto>
          ZipArchive [(''ExtraFiles_VersionEqualizer/q.txt'', File ''A'')]))"
  by (simp add: nested_plan_def nested_target_def create_zip_def Let_def plan_entry_def
      getitem_def path_defs fs_defs)

lemma nested_run_once:
  "equalize_versions nested_plan ''c'' (Some ''version_update.zip'') nested_current
     = (Inr [''q.txt''],
        [''c'' \<mapsto> Dir,
         ''c/ExtraFiles_VersionEqualizer'' \<mapsto> Dir,
         ''c/ExtraFiles_VersionEqualizer/q.txt'' \<mapsto> File ''Q'',
         ''version_update.zip'' \<mapsto>
            ZipArchive [(''ExtraFiles_VersionEqualizer/q.txt'', File ''A'')]])"
  by (simp add: nested_plan_def nested_current_def equalize_versions_def makedirs.simps
      plan_entry_def getitem_def path_defs fs_defs fun_eq_iff)

lemma nested_run_twice:
  "equalize_versions nested_plan ''c'' (Some ''version_update.zip'')
       [''c'' \<mapsto> Dir,
        ''c/ExtraFiles_VersionEqualizer'' \<mapsto> Dir,
        ''c/ExtraFiles_VersionEqualizer/q.txt'' \<mapsto> File ''Q'',
        ''version_update.zip'' \<mapsto>
           ZipArchive [(''ExtraFiles_VersionEqualizer/q.txt'', File ''A'')]]
     = (Inr [],
        [''c'' \<mapsto> Dir,
         ''c/ExtraFiles_VersionEqualizer'' \<mapsto> Dir,
         ''c/ExtraFiles_VersionEqualizer/q.txt'' \<mapsto> File ''A'',
         ''version_update.zip'' \<mapsto>
            ZipArchive [(''ExtraFiles_VersionEqualizer/q.txt'', File ''A'')]])"
  by (simp add: nested_plan_def equalize_versions_def makedirs.simps
      plan_entry_def getitem_def path_defs fs_defs fun_eq_iff)

text \<open>
  Claim C3 reads: a second run of \<open>equalize_versions\<close> with the same plan and archive
  leaves the tree as the first run left it. It fails when the target holds a file below
  \<open>ExtraFiles_VersionEqualizer\<close> whose relative path is that of a file to move. The target
  \<open>t\<close> holds \<open>ExtraFiles_VersionEqualizer/q.txt\<close> (bytes \<open>A\<close>), the current folder \<open>c\<close> holds
  \<open>q.txt\<close> (bytes \<open>Q\<close>); the plan is the one \<open>compare_versions\<close> returns and the archive
  the one \<open>create_zip\<close> writes. The first run extracts \<open>A\<close> and then moves \<open>q.txt\<close> over
  it; the second run, on the resulting tree, extracts \<open>A\<close> over the quarantined \<open>Q\<close> and
  finds nothing to move. The two final trees differ at
  \<open>c/ExtraFiles_VersionEqualizer/q.txt\<close>.
\<close>

theorem equalize_versions_twice_differs:
  "snd (equalize_versions nested_plan ''c'' (Some ''version_update.zip'') nested_current)
       ''c/ExtraFiles_VersionEqualizer/q.txt'' = Some (File ''Q'')
   \<and> snd (equalize_versions nested_plan ''c'' (Some ''version_update.zip'')
          (snd (equalize_versions nested_plan ''c'' (Some ''version_update.zip'') nested_current)))
       ''c/ExtraFiles_VersionEqualizer/q.txt'' = Some (File ''A'')
   \<and> snd (equalize_versions nested_plan ''c'' (Some ''version_update.zip'')
          (snd (equalize_versions nested_plan ''c'' (Some ''version_update.zip'') nested_current)))
     \<noteq> snd (equalize_versions nested_plan ''c'' (Some ''version_update.zip'') nested_current)"
proof -
  let ?once = "snd (equalize_versions nested_plan ''c'' (Some ''version_update.zip'')
      nested_current)"
  let ?twice = "snd (equalize_versions nested_plan ''c'' (Some ''version_update.zip'') ?once)"
  have one: "?once ''c/ExtraFiles_VersionEqualizer/q.txt'' = Some (File ''Q'')"
    by (simp add: nested_run_once)
  have two: "?twice ''c/ExtraFiles_VersionEqualizer/q.txt'' = Some (File ''A'')"
    by (simp add: nested_run_once nested_run_twice)
  have "?twice \<noteq> ?once"
  proof
    assume "?twice = ?once"
    then have "?twice ''c/ExtraFiles_VersionEqualizer/q.txt''
        = ?once ''c/ExtraFiles_VersionEqualizer/q.txt''"
      by simp
    with one two show False by simp
  qed
  with one two show ?thesis by simp
qed

subsection \<open>Where the archive is written\<close>

lemma count_sep_take: "count_list (take n xs) c \<le> count_list xs c"
proof -
  have "count_list xs c = count_list (take n xs) c + count_list (drop n xs) c"
    by (metis append_take_drop_id count_list_append)
  then show ?thesis by simp
qed

lemma count_dropWhile_sep:
  "count_list (dropWhile (\<lambda>c. c = x) ys) x \<le> count_list ys x"
  by (induction ys) auto

text \<open>
  For a target folder whose path does not end with a separator, the path of the archive
  does not start with the path of the folder, and \<open>create_zip\<close> leaves every path that
  starts with it as it was. This is about the paths as strings: a folder path such as
  \<open>.\<close>, \<open>t/.\<close> or \<open>x/..\<close> names a directory that the archive still lands in.
\<close>

lemma zip_path_outside_target:
  assumes "to_folder \<noteq> []" and "last to_folder \<noteq> os_sep"
  shows "\<not> under to_folder (join (dirname to_folder) ''version_update.zip'')"
proof
  let ?v = "''version_update.zip''"
  let ?z = "join (dirname to_folder) ?v"
  let ?rh = "dropWhile (\<lambda>c. c \<noteq> os_sep) (rev to_folder)"
  let ?rt = "takeWhile (\<lambda>c. c \<noteq> os_sep) (rev to_folder)"
  assume u: "under to_folder ?z"
  have v0: "count_list ?v os_sep = 0" by (simp add: os_sep_def)
  have "count_list ?rt os_sep = 0"
    by (metis (mono_tags, lifting) count_list_0_iff set_takeWhileD)
  moreover have "rev to_folder = ?rt @ ?rh" by simp
  ultimately have "count_list (rev to_folder) os_sep = count_list ?rh os_sep"
    by (metis add_0 count_list_append)
  then have tf: "count_list to_folder os_sep = count_list ?rh os_sep"
    by (simp add: count_list_rev)
  have z: "count_list ?z os_sep \<le> count_list ?rh os_sep"
  proof (cases "?rh = []")
    case True
    then show ?thesis by (simp add: dirname_def path_split_def Let_def join_def v0 os_sep_def)
  next
    case False
    then have hd: "hd ?rh = os_sep" using hd_dropWhile [of "\<lambda>c. c \<noteq> os_sep" "rev to_folder"] by auto
    then obtain r where r: "?rh = os_sep # r" using False by (cases ?rh) auto
    show ?thesis
    proof (cases "rev ?rh = replicate (length (rev ?rh)) os_sep")
      case True
      then have d: "dirname to_folder = rev ?rh"
        by (simp add: dirname_def path_split_def Let_def)
      have "last (rev ?rh) = os_sep" using False hd by (simp add: last_rev)
      then have "?z = rev ?rh @ ?v" using False by (simp add: d join_def os_sep_def)
      then show ?thesis by (simp add: count_list_append count_list_rev os_sep_def)
    next
      case nr: False
      then have d: "dirname to_folder = rev (dropWhile (\<lambda>c. c = os_sep) r)"
        using False r by (simp add: dirname_def path_split_def Let_def rstrip_sep_def)
      have "count_list (dirname to_folder) os_sep \<le> count_list r os_sep"
        unfolding d by (simp add: count_list_rev count_dropWhile_sep)
      moreover have "count_list ?z os_sep \<le> count_list (dirname to_folder) os_sep + 1"
        by (simp add: join_def count_list_append v0 os_sep_def)
      ultimately show ?thesis using r by simp
    qed
  qed
  have pre: "take (length (to_folder @ [os_sep])) ?z = to_folder @ [os_sep]"
    using u assms by (simp add: under_def)
  have "count_list (to_folder @ [os_sep]) os_sep \<le> count_list ?z os_sep"
    using count_sep_take [of "length (to_folder @ [os_sep])" ?z os_sep] pre by simp
  then have "count_list to_folder os_sep + 1 \<le> count_list ?z os_sep"
    by (simp add: count_list_append)
  with z tf show False by simp
qed

lemma create_zip_leaves_target:
  assumes "to_folder \<noteq> []" and "last to_folder \<noteq> os_sep" and "under to_folder p"
  shows "snd (create_zip convert_data to_folder fs) p = fs p"
proof -
  have "p \<noteq> join (dirname to_folder) ''version_update.zip''"
    using zip_path_outside_target [OF assms(1,2)] assms(3) by auto
  then show ?thesis by (rule create_zip_frame)
qed

text \<open>
  Claim C10 reads: \<open>create_zip\<close> writes one file, \<open>version_update.zip\<close> in the parent
  directory of the target folder, and nothing inside the target folder. The path is
  computed with \<open>os.path.dirname\<close>, which for a folder given with a trailing separator
  (\<open>/srv/app/\<close>), or for a root directory (\<open>/\<close>), is the folder itself: there the archive
  is created inside the target folder, where no such file was before.
\<close>

theorem create_zip_inside_target:
  "under ''/srv/app/'' (join (dirname ''/srv/app/'') ''version_update.zip'')
   \<and> [''/srv/app'' \<mapsto> Dir, ''/srv/app/a.txt'' \<mapsto> File ''A''] ''/srv/app/version_update.zip'' = None
   \<and> create_zip [plan_entry ''a.txt'' ''copy''] ''/srv/app/''
        [''/srv/app'' \<mapsto> Dir, ''/srv/app/a.txt'' \<mapsto> File ''A'']
      = (Inr (ZipResult (Some ''/srv/app/version_update.zip'') None),
         [''/srv/app'' \<mapsto> Dir, ''/srv/app/a.txt'' \<mapsto> File ''A'',
          ''/srv/app/version_update.zip'' \<mapsto> ZipArchive [(''a.txt'', File ''A'')]])
   \<and> under ''/'' (join (dirname ''/'') ''version_update.zip'')
   \<and> create_zip [plan_entry ''a.txt'' ''copy''] ''/'' [''/'' \<mapsto> Dir, ''/a.txt'' \<mapsto> File ''A'']
      = (Inr (ZipResult (Some ''/version_update.zip'') None),
         [''/'' \<mapsto> Dir, ''/a.txt'' \<mapsto> File ''A'',
          ''/version_update.zip'' \<mapsto> ZipArchive [(''a.txt'', File ''A'')]])"
  by (simp add: create_zip_def Let_def plan_entry_def getitem_def path_defs fs_defs)

end
